theory Spec2Isabelle
  imports Main "HOL-Library.Word"
begin

section \<open>Python values\<close>

text \<open>
  A Python \<open>str\<close> is a sequence of Unicode code points, so it is modelled as a list of
  natural numbers (not as an Isabelle \<open>string\<close>, whose characters are bytes).
  \<open>u\<close> reads an ASCII literal as such a string.
\<close>

type_synonym ustr = "nat list"

definition u :: "string \<Rightarrow> ustr" where
  "u s = map of_char s"

text \<open>
  The values that \<open>json.load\<close> and \<open>csv.DictReader\<close> produce. A \<open>dict\<close> keeps its
  insertion order, so it is an association list; its keys are compared with HOL equality,
  which is Python's \<open>==\<close> on the keys the two readers produce (\<open>str\<close>, and \<open>None\<close>
  for the \<open>restkey\<close> of \<open>DictReader\<close>). A \<open>float\<close> is carried as its 64 bits.
\<close>

datatype pyval =
    PNone
  | PBool bool
  | PInt int
  | PFloat "64 word"
  | PStr ustr
  | PList "pyval list"
  | PDict "(pyval \<times> pyval) list"

type_synonym pydict = "(pyval \<times> pyval) list"

text \<open>\<open>d[k] = v\<close>: an existing key keeps its position and gets the new value, a new key
  is appended.\<close>

fun dict_set :: "pydict \<Rightarrow> pyval \<Rightarrow> pyval \<Rightarrow> pydict" where
  "dict_set [] k v = [(k, v)]"
| "dict_set ((k', v') # d) k v =
     (if k' = k then (k', v) # d else (k', v') # dict_set d k v)"

section \<open>The Unicode operations of the standard library\<close>

text \<open>
  \<open>unicodedata.normalize\<close>, \<open>unicodedata.category\<close>, \<open>str.lower\<close> and \<open>str.strip\<close>
  read the Unicode character database, which is not part of the repository. The database
  is a parameter: a record of the tables for the code points from 128 on. What the
  operations do on ASCII is fixed by the standard and written out.
  \<^item> \<open>decomp_tbl c\<close>: the full canonical decomposition of \<open>c\<close> (\<open>[c]\<close> when it has none);
  \<^item> \<open>ccc_tbl c\<close>: the canonical combining class of \<open>c\<close>;
  \<^item> \<open>Mn_tbl c\<close>: whether the general category of \<open>c\<close> is \<open>Mn\<close> (nonspacing mark);
  \<^item> \<open>lower_tbl pre c post\<close>: the lowercase mapping of \<open>c\<close> standing between \<open>pre\<close> and
    \<open>post\<close> (the context matters for the Greek final sigma only);
  \<^item> \<open>space_tbl c\<close>: whether \<open>c\<close> is whitespace for \<open>str.isspace\<close>.
\<close>

record ucd =
  decomp_tbl :: "nat \<Rightarrow> ustr"
  ccc_tbl :: "nat \<Rightarrow> nat"
  Mn_tbl :: "nat \<Rightarrow> bool"
  lower_tbl :: "ustr \<Rightarrow> nat \<Rightarrow> ustr \<Rightarrow> ustr"
  space_tbl :: "nat \<Rightarrow> bool"

definition decomp :: "ucd \<Rightarrow> nat \<Rightarrow> ustr" where
  "decomp U c = (if c < 128 then [c] else decomp_tbl U c)"

definition ccc :: "ucd \<Rightarrow> nat \<Rightarrow> nat" where
  "ccc U c = (if c < 128 then 0 else ccc_tbl U c)"

definition is_Mn :: "ucd \<Rightarrow> nat \<Rightarrow> bool" where
  "is_Mn U c = (128 \<le> c \<and> Mn_tbl U c)"

definition ascii_lower :: "nat \<Rightarrow> nat" where
  "ascii_lower c = (if 65 \<le> c \<and> c \<le> 90 then c + 32 else c)"

definition lower_cp :: "ucd \<Rightarrow> ustr \<Rightarrow> nat \<Rightarrow> ustr \<Rightarrow> ustr" where
  "lower_cp U pre c post = (if c < 128 then [ascii_lower c] else lower_tbl U pre c post)"

definition is_space :: "ucd \<Rightarrow> nat \<Rightarrow> bool" where
  "is_space U c =
     (if c < 128 then (9 \<le> c \<and> c \<le> 13) \<or> (28 \<le> c \<and> c \<le> 32) else space_tbl U c)"

text \<open>
  The canonical ordering of normalization form D: a character with a combining class
  other than 0 moves left past the characters of a greater class. \<open>reorder_insert\<close>
  works on the text read so far, last character first.
\<close>

fun reorder_insert :: "ucd \<Rightarrow> nat \<Rightarrow> ustr \<Rightarrow> ustr" where
  "reorder_insert U c [] = [c]"
| "reorder_insert U c (x # xs) =
     (if ccc U c \<noteq> 0 \<and> ccc U c < ccc U x then x # reorder_insert U c xs
      else c # x # xs)"

definition canonical_order :: "ucd \<Rightarrow> ustr \<Rightarrow> ustr" where
  "canonical_order U s = rev (foldl (\<lambda>acc c. reorder_insert U c acc) [] s)"

text \<open>\<open>unicodedata.normalize('NFD', s)\<close>: decompose every character, then order the marks.\<close>

definition NFD :: "ucd \<Rightarrow> ustr \<Rightarrow> ustr" where
  "NFD U s = canonical_order U (concat (map (decomp U) s))"

text \<open>\<open>s.lower()\<close>, character by character, each with its context.\<close>

fun lower_from :: "ucd \<Rightarrow> ustr \<Rightarrow> ustr \<Rightarrow> ustr" where
  "lower_from U pre [] = []"
| "lower_from U pre (c # cs) = lower_cp U pre c cs @ lower_from U (pre @ [c]) cs"

definition str_lower :: "ucd \<Rightarrow> ustr \<Rightarrow> ustr" where
  "str_lower U s = lower_from U [] s"

text \<open>\<open>s.strip()\<close>: without the whitespace at both ends.\<close>

definition str_strip :: "ucd \<Rightarrow> ustr \<Rightarrow> ustr" where
  "str_strip U s = rev (dropWhile (is_space U) (rev (dropWhile (is_space U) s)))"

section \<open>TextNormalizer\<close>

text \<open>\<open>''.join(c for c in normalized if unicodedata.category(c) != 'Mn')\<close>, the body of
  \<open>removeAccents\<close> below its \<open>isinstance\<close> guard.\<close>

definition removeAccents_str :: "ucd \<Rightarrow> ustr \<Rightarrow> ustr" where
  "removeAccents_str U text =
     (let normalized = NFD U text in filter (\<lambda>c. \<not> is_Mn U c) normalized)"

fun removeAccents :: "ucd \<Rightarrow> pyval \<Rightarrow> pyval" where
  "removeAccents U (PStr text) = PStr (removeAccents_str U text)"
| "removeAccents U text = text"

fun normalizeText :: "ucd \<Rightarrow> pyval \<Rightarrow> pyval" where
  "normalizeText U (PStr text) =
     (let text' = removeAccents_str U text in PStr (str_strip U (str_lower U text')))"
| "normalizeText U text = text"

text \<open>
  The character class \<open>[^a-zA-Z0-9_]\<close> as the ranges it lists, and
  \<open>re.sub(r'[^a-zA-Z0-9_]', '_', key)\<close>, which replaces every single character that the
  class matches.
\<close>

definition key_class_ranges :: "(nat \<times> nat) list" where
  "key_class_ranges = [(97, 122), (65, 90), (48, 57), (95, 95)]"

definition in_ranges :: "(nat \<times> nat) list \<Rightarrow> nat \<Rightarrow> bool" where
  "in_ranges rs c = list_ex (\<lambda>(lo, hi). lo \<le> c \<and> c \<le> hi) rs"

definition re_sub_key :: "ustr \<Rightarrow> ustr" where
  "re_sub_key key = map (\<lambda>c. if \<not> in_ranges key_class_ranges c then 95 else c) key"

fun normalizeKey :: "ucd \<Rightarrow> pyval \<Rightarrow> pyval" where
  "normalizeKey U (PStr key) =
     (let key1 = removeAccents_str U key;
          key2 = re_sub_key key1
      in PStr (str_lower U key2))"
| "normalizeKey U key = key"

definition is_str :: "pyval \<Rightarrow> bool" where
  "is_str v = (case v of PStr _ \<Rightarrow> True | _ \<Rightarrow> False)"

text \<open>The body of the inner loop of \<open>cleanData\<close>: one field is cleaned and stored.\<close>

definition cleanValue :: "ucd \<Rightarrow> pyval \<Rightarrow> pyval" where
  "cleanValue U value =
     (let cleanedValue = (if is_str value then normalizeText U value else value)
      in if cleanedValue = PNone \<or> cleanedValue = PStr [] then PStr (u ''n/a'')
         else cleanedValue)"

definition cleanField :: "ucd \<Rightarrow> pydict \<Rightarrow> pyval \<times> pyval \<Rightarrow> pydict" where
  "cleanField U cleanedItem kv =
     (case kv of (key, value) \<Rightarrow>
        dict_set cleanedItem (normalizeKey U key) (cleanValue U value))"

definition cleanItem :: "ucd \<Rightarrow> pydict \<Rightarrow> pydict" where
  "cleanItem U item = foldl (cleanField U) [] item"

definition cleanData :: "ucd \<Rightarrow> pydict list \<Rightarrow> pydict list" where
  "cleanData U data = foldl (\<lambda>cleanedData item. cleanedData @ [cleanItem U item]) [] data"

section \<open>An excerpt of the Unicode character database\<close>

text \<open>
  The entries of the database that the examples use, as Unicode has them: for Latin-1
  (U+0080 to U+00FF) the canonical decompositions, the lowercase mappings and the
  whitespace; for the combining diacritical marks U+0300 to U+036F the category (all
  are \<open>Mn\<close>), the combining classes and the four decompositions; and the two musical
  marks U+1D165 and U+1D16D, which combine (classes 216 and 226) but are of category
  \<open>Mc\<close>. Any other code point is taken as a letter without case or decomposition.
\<close>

definition excerpt_decomp :: "(nat \<times> ustr) list" where
  "excerpt_decomp =
    [(0xC0, [0x41, 0x300]), (0xC1, [0x41, 0x301]), (0xC2, [0x41, 0x302]),
     (0xC3, [0x41, 0x303]), (0xC4, [0x41, 0x308]), (0xC5, [0x41, 0x30A]),
     (0xC7, [0x43, 0x327]), (0xC8, [0x45, 0x300]), (0xC9, [0x45, 0x301]),
     (0xCA, [0x45, 0x302]), (0xCB, [0x45, 0x308]), (0xCC, [0x49, 0x300]),
     (0xCD, [0x49, 0x301]), (0xCE, [0x49, 0x302]), (0xCF, [0x49, 0x308]),
     (0xD1, [0x4E, 0x303]), (0xD2, [0x4F, 0x300]), (0xD3, [0x4F, 0x301]),
     (0xD4, [0x4F, 0x302]), (0xD5, [0x4F, 0x303]), (0xD6, [0x4F, 0x308]),
     (0xD9, [0x55, 0x300]), (0xDA, [0x55, 0x301]), (0xDB, [0x55, 0x302]),
     (0xDC, [0x55, 0x308]), (0xDD, [0x59, 0x301]), (0xE0, [0x61, 0x300]),
     (0xE1, [0x61, 0x301]), (0xE2, [0x61, 0x302]), (0xE3, [0x61, 0x303]),
     (0xE4, [0x61, 0x308]), (0xE5, [0x61, 0x30A]), (0xE7, [0x63, 0x327]),
     (0xE8, [0x65, 0x300]), (0xE9, [0x65, 0x301]), (0xEA, [0x65, 0x302]),
     (0xEB, [0x65, 0x308]), (0xEC, [0x69, 0x300]), (0xED, [0x69, 0x301]),
     (0xEE, [0x69, 0x302]), (0xEF, [0x69, 0x308]), (0xF1, [0x6E, 0x303]),
     (0xF2, [0x6F, 0x300]), (0xF3, [0x6F, 0x301]), (0xF4, [0x6F, 0x302]),
     (0xF5, [0x6F, 0x303]), (0xF6, [0x6F, 0x308]), (0xF9, [0x75, 0x300]),
     (0xFA, [0x75, 0x301]), (0xFB, [0x75, 0x302]), (0xFC, [0x75, 0x308]),
     (0xFD, [0x79, 0x301]), (0xFF, [0x79, 0x308]),
     (0x340, [0x300]), (0x341, [0x301]), (0x343, [0x313]), (0x344, [0x308, 0x301])]"

definition excerpt_ccc :: "(nat \<times> nat \<times> nat) list" where
  "excerpt_ccc =
    [(0x300, 0x314, 230), (0x315, 0x315, 232), (0x316, 0x319, 220), (0x31A, 0x31A, 232),
     (0x31B, 0x31B, 216), (0x31C, 0x320, 220), (0x321, 0x322, 202), (0x323, 0x326, 220),
     (0x327, 0x328, 202), (0x329, 0x333, 220), (0x334, 0x338, 1), (0x339, 0x33C, 220),
     (0x33D, 0x344, 230), (0x345, 0x345, 240), (0x346, 0x346, 230), (0x347, 0x349, 220),
     (0x34A, 0x34C, 230), (0x34D, 0x34E, 220), (0x34F, 0x34F, 0), (0x350, 0x352, 230),
     (0x353, 0x356, 220), (0x357, 0x357, 230), (0x358, 0x358, 232), (0x359, 0x35A, 220),
     (0x35B, 0x35B, 230), (0x35C, 0x35C, 233), (0x35D, 0x35E, 234), (0x35F, 0x35F, 233),
     (0x360, 0x361, 234), (0x362, 0x362, 233), (0x363, 0x36F, 230),
     (0x1D165, 0x1D165, 216), (0x1D16D, 0x1D16D, 226)]"

definition ucd_excerpt :: ucd where
  "ucd_excerpt =
     \<lparr> decomp_tbl = (\<lambda>c. case map_of excerpt_decomp c of Some d \<Rightarrow> d | None \<Rightarrow> [c]),
       ccc_tbl = (\<lambda>c. case find (\<lambda>(lo, hi, k). lo \<le> c \<and> c \<le> hi) excerpt_ccc of
                       Some (lo, hi, k) \<Rightarrow> k | None \<Rightarrow> 0),
       Mn_tbl = (\<lambda>c. 0x300 \<le> c \<and> c \<le> 0x36F),
       lower_tbl = (\<lambda>pre c post. if 0xC0 \<le> c \<and> c \<le> 0xDE \<and> c \<noteq> 0xD7 then [c + 32] else [c]),
       space_tbl = (\<lambda>c. c = 0x85 \<or> c = 0xA0) \<rparr>"


section \<open>Exceptions, the file system and the parsing libraries\<close>

text \<open>The exceptions that the program raises itself or lets pass from the library.\<close>

datatype exn =
    FileNotFoundError ustr
  | ValueError ustr
  | IsADirectoryError
  | NotADirectoryError
  | FileExistsError
  | TypeError
  | AttributeError
  | KeyError
  | CsvError
  | JSONDecodeError
  | UnicodeDecodeError

text \<open>
  The file system is a map from path names to files (their bytes) and directories. A path
  names the node it is mapped to, as it is spelled; the empty path names nothing; a path
  of slashes only is the root directory; a relative path without a directory part lies in
  the current directory, which exists.
\<close>

datatype node = File "nat list" | Dir

type_synonym fs = "ustr \<Rightarrow> node option"

definition lookup :: "fs \<Rightarrow> ustr \<Rightarrow> node option" where
  "lookup F p =
     (if p = [] then None else if list_all (\<lambda>c. c = 47) p then Some Dir else F p)"

definition os_path_exists :: "fs \<Rightarrow> ustr \<Rightarrow> bool" where
  "os_path_exists F p = (lookup F p \<noteq> None)"

text \<open>\<open>os.path.dirname\<close> and \<open>os.path.splitext\<close> as \<open>posixpath\<close> defines them: the
  directory part is everything up to the last slash, without trailing slashes unless it
  consists of slashes; the extension starts at the last dot of the file name, unless only
  dots precede it there.\<close>

definition os_path_dirname :: "ustr \<Rightarrow> ustr" where
  "os_path_dirname p =
     (let head = rev (dropWhile (\<lambda>c. c \<noteq> 47) (rev p))
      in if head \<noteq> [] \<and> \<not> list_all (\<lambda>c. c = 47) head
         then rev (dropWhile (\<lambda>c. c = 47) (rev head)) else head)"

definition os_path_splitext :: "ustr \<Rightarrow> ustr \<times> ustr" where
  "os_path_splitext p =
     (let name = rev (takeWhile (\<lambda>c. c \<noteq> 47) (rev p));
          suffix = rev (takeWhile (\<lambda>c. c \<noteq> 46) (rev name));
          stem = take (length name - length suffix - 1) name
      in if 46 \<in> set name \<and> list_ex (\<lambda>c. c \<noteq> 46) stem
         then (take (length p - length suffix - 1) p, 46 # suffix)
         else (p, []))"

definition open_r :: "fs \<Rightarrow> ustr \<Rightarrow> exn + nat list" where
  "open_r F p =
     (case lookup F p of
        None \<Rightarrow> Inl (FileNotFoundError (u ''[Errno 2] No such file or directory: '' @ p))
      | Some Dir \<Rightarrow> Inl IsADirectoryError
      | Some (File content) \<Rightarrow> Inr content)"

text \<open>\<open>open(p, 'w')\<close> creates or truncates the file; its directory must exist. The
  empty path is not found, and a path that ends in a slash names a directory.\<close>

definition open_w :: "fs \<Rightarrow> ustr \<Rightarrow> exn + fs" where
  "open_w F p =
     (if p = [] then Inl (FileNotFoundError (u ''[Errno 2] No such file or directory: '' @ p))
      else if last p = 47 then Inl IsADirectoryError
      else case lookup F p of
        Some Dir \<Rightarrow> Inl IsADirectoryError
      | _ \<Rightarrow>
        (let d = os_path_dirname p in
         if d = [] \<or> lookup F d = Some Dir then Inr (F(p \<mapsto> File []))
         else if lookup F d = None
         then Inl (FileNotFoundError (u ''[Errno 2] No such file or directory: '' @ p))
         else Inl NotADirectoryError))"

text \<open>\<open>os.makedirs(d, exist_ok=True)\<close> creates \<open>d\<close> and its missing ancestors, outermost
  first, and fails at a path that is a file (\<open>NotADirectoryError\<close> at an ancestor,
  \<open>FileExistsError\<close> at \<open>d\<close> itself); what it created before stays.\<close>

fun ancestors_from :: "ustr \<Rightarrow> ustr \<Rightarrow> ustr list" where
  "ancestors_from pre [] = []"
| "ancestors_from pre (c # cs) =
     (if c = 47 \<and> pre \<noteq> [] \<and> last pre \<noteq> 47 then [pre] else [])
       @ ancestors_from (pre @ [c]) cs"

fun mkdir_all :: "fs \<Rightarrow> ustr list \<Rightarrow> exn option \<times> fs" where
  "mkdir_all F [] = (None, F)"
| "mkdir_all F (p # ps) =
     (case lookup F p of
        Some Dir \<Rightarrow> mkdir_all F ps
      | Some (File _) \<Rightarrow> (Some (if ps = [] then FileExistsError else NotADirectoryError), F)
      | None \<Rightarrow> mkdir_all (F(p \<mapsto> Dir)) ps)"

definition os_makedirs :: "fs \<Rightarrow> ustr \<Rightarrow> exn option \<times> fs" where
  "os_makedirs F d = mkdir_all F (ancestors_from [] d @ [d])"

text \<open>
  The \<open>csv\<close> and \<open>json\<close> modules are parameters as well:
  \<^item> \<open>csv_reader delim content\<close>: the rows that \<open>csv.reader\<close> yields from a file with these
    bytes, opened as UTF-8 text, and the exception that ends the iteration, if any;
  \<^item> \<open>csv_writerow delim cells\<close>: the bytes that \<open>writerow\<close> writes for a row;
  \<^item> \<open>json_load content\<close>: the value of \<open>json.load\<close>, or the exception it raises;
  \<^item> \<open>json_dump v\<close>: the bytes that \<open>json.dump(v, file, indent=4, ensure_ascii=False)\<close>
    writes, and the exception that interrupts it, if any.
\<close>

record libs =
  csv_reader :: "ustr \<Rightarrow> nat list \<Rightarrow> ustr list list \<times> exn option"
  csv_writerow :: "ustr \<Rightarrow> pyval list \<Rightarrow> exn + nat list"
  json_load :: "nat list \<Rightarrow> exn + pyval"
  json_dump :: "pyval \<Rightarrow> nat list \<times> exn option"

section \<open>The converters\<close>

datatype converter =
    CSVConverter (conv_filePath: ustr) (conv_data: pyval) (conv_delimiter: ustr)
  | JSONConverter (conv_filePath: ustr) (conv_data: pyval)

definition DataConverter_init :: "fs \<Rightarrow> ustr \<Rightarrow> exn + pyval" where
  "DataConverter_init F filePath =
     (if \<not> os_path_exists F filePath
      then Inl (FileNotFoundError (u ''Archivo no encontrado: '' @ filePath))
      else Inr (PList []))"

definition CSVConverter_init :: "fs \<Rightarrow> ustr \<Rightarrow> ustr \<Rightarrow> exn + converter" where
  "CSVConverter_init F filePath delimiter =
     (case DataConverter_init F filePath of
        Inl e \<Rightarrow> Inl e
      | Inr d \<Rightarrow> Inr (CSVConverter filePath d delimiter))"

definition JSONConverter_init :: "fs \<Rightarrow> ustr \<Rightarrow> exn + converter" where
  "JSONConverter_init F filePath =
     (case DataConverter_init F filePath of
        Inl e \<Rightarrow> Inl e
      | Inr d \<Rightarrow> Inr (JSONConverter filePath d))"

subsection \<open>validateFormat\<close>

text \<open>The \<open>try\<close> block of each \<open>validateFormat\<close>, and the bare \<open>except\<close> around it.
  \<open>next(reader, None)\<close> is the first row, \<open>None\<close> at the end of the file, or the
  exception of the reader.\<close>

definition csv_validate_try :: "libs \<Rightarrow> fs \<Rightarrow> ustr \<Rightarrow> ustr \<Rightarrow> exn + bool" where
  "csv_validate_try L F filePath delimiter =
     (case open_r F filePath of
        Inl e \<Rightarrow> Inl e
      | Inr content \<Rightarrow>
          (case csv_reader L delimiter content of
             ([], None) \<Rightarrow> Inr False
           | ([], Some e) \<Rightarrow> Inl e
           | (row # _, _) \<Rightarrow> Inr True))"

definition json_validate_try :: "libs \<Rightarrow> fs \<Rightarrow> ustr \<Rightarrow> exn + bool" where
  "json_validate_try L F filePath =
     (case open_r F filePath of
        Inl e \<Rightarrow> Inl e
      | Inr content \<Rightarrow>
          (case json_load L content of Inl e \<Rightarrow> Inl e | Inr _ \<Rightarrow> Inr True))"

definition except_return_False :: "exn + bool \<Rightarrow> exn + bool" where
  "except_return_False body = (case body of Inl _ \<Rightarrow> Inr False | Inr b \<Rightarrow> Inr b)"

fun validateFormat :: "libs \<Rightarrow> fs \<Rightarrow> converter \<Rightarrow> exn + bool" where
  "validateFormat L F (CSVConverter filePath d delimiter) =
     except_return_False (csv_validate_try L F filePath delimiter)"
| "validateFormat L F (JSONConverter filePath d) =
     except_return_False (json_validate_try L F filePath)"

subsection \<open>readData\<close>

text \<open>One row of \<open>csv.DictReader\<close>: \<open>dict(zip(fieldnames, row))\<close>, the surplus cells of
  a long row under the key \<open>None\<close>, the missing cells of a short row as \<open>None\<close>.\<close>

definition DictReader_row :: "ustr list \<Rightarrow> ustr list \<Rightarrow> pyval" where
  "DictReader_row fieldnames row =
     (let d = foldl (\<lambda>d kv. dict_set d (PStr (fst kv)) (PStr (snd kv))) [] (zip fieldnames row);
          lf = length fieldnames;
          lr = length row
      in PDict (if lf < lr then dict_set d PNone (PList (map PStr (drop lf row)))
                else if lf > lr
                then foldl (\<lambda>d key. dict_set d (PStr key) PNone) d (drop lr fieldnames)
                else d))"

text \<open>\<open>[row for row in reader]\<close>: the first row is the header, empty rows are skipped,
  and an exception of the reader passes.\<close>

definition DictReader_rows :: "ustr list list \<times> exn option \<Rightarrow> exn + pyval" where
  "DictReader_rows r =
     (case r of
        (_, Some e) \<Rightarrow> Inl e
      | ([], None) \<Rightarrow> Inr (PList [])
      | (fieldnames # rows, None) \<Rightarrow>
          Inr (PList (map (DictReader_row fieldnames) (filter (\<lambda>row. row \<noteq> []) rows))))"

text \<open>\<open>readData\<close> also stores the data in the converter, which \<open>convert\<close> does not use
  again; the model returns the data only.\<close>

fun readData :: "libs \<Rightarrow> fs \<Rightarrow> converter \<Rightarrow> exn + pyval" where
  "readData L F (CSVConverter filePath d delimiter) =
     (case open_r F filePath of
        Inl e \<Rightarrow> Inl e
      | Inr content \<Rightarrow> DictReader_rows (csv_reader L delimiter content))"
| "readData L F (JSONConverter filePath d) =
     (case open_r F filePath of
        Inl e \<Rightarrow> Inl e
      | Inr content \<Rightarrow> json_load L content)"

subsection \<open>writeData\<close>

text \<open>The directory of the output path is created when it is named and missing.\<close>

definition ensure_directory :: "fs \<Rightarrow> ustr \<Rightarrow> exn option \<times> fs" where
  "ensure_directory F outputPath =
     (let directory = os_path_dirname outputPath
      in if directory \<noteq> [] \<and> \<not> os_path_exists F directory then os_makedirs F directory
         else (None, F))"

text \<open>\<open>not self.data\<close> is true of \<open>None\<close>, \<open>False\<close>, zero and the empty containers.\<close>

fun py_truthy :: "pyval \<Rightarrow> bool" where
  "py_truthy PNone = False"
| "py_truthy (PBool b) = b"
| "py_truthy (PInt i) = (i \<noteq> 0)"
| "py_truthy (PFloat w) = (w \<noteq> 0 \<and> w \<noteq> 0x8000000000000000)"
| "py_truthy (PStr s) = (s \<noteq> [])"
| "py_truthy (PList xs) = (xs \<noteq> [])"
| "py_truthy (PDict d) = (d \<noteq> [])"

text \<open>\<open>self.data[0].keys()\<close> and the rows that \<open>writerows(self.data)\<close> iterates over, for
  data that is not empty and was read by \<open>json.load\<close> or built by \<open>cleanData\<close> (a
  dictionary read from JSON has strings as keys, so that \<open>data[0]\<close> is a \<open>KeyError\<close>).\<close>

fun first_keys :: "pyval \<Rightarrow> exn + pyval list \<times> pyval list" where
  "first_keys (PList (PDict r # rows)) = Inr (map fst r, PDict r # rows)"
| "first_keys (PList rows) = Inl AttributeError"
| "first_keys (PStr s) = Inl AttributeError"
| "first_keys (PDict d) = Inl KeyError"
| "first_keys v = Inl TypeError"

text \<open>\<open>DictWriter._dict_to_list\<close> with the defaults \<open>extrasaction='raise'\<close> and
  \<open>restval=''\<close>: a key outside the field names raises (the message of the library also
  lists the keys), a missing field is written as the empty string.\<close>

fun dict_to_list :: "pyval list \<Rightarrow> pyval \<Rightarrow> exn + pyval list" where
  "dict_to_list fieldnames (PDict rowdict) =
     (if list_ex (\<lambda>k. k \<notin> set fieldnames) (map fst rowdict)
      then Inl (ValueError (u ''dict contains fields not in fieldnames''))
      else Inr (map (\<lambda>key. case map_of rowdict key of Some v \<Rightarrow> v | None \<Rightarrow> PStr [])
                  fieldnames))"
| "dict_to_list fieldnames v = Inl AttributeError"

text \<open>\<open>writerows\<close>: the rows written until the first exception, and that exception.\<close>

fun writerows :: "libs \<Rightarrow> ustr \<Rightarrow> pyval list \<Rightarrow> pyval list \<Rightarrow> nat list \<times> exn option" where
  "writerows L delimiter fieldnames [] = ([], None)"
| "writerows L delimiter fieldnames (rowdict # rows) =
     (case dict_to_list fieldnames rowdict of
        Inl e \<Rightarrow> ([], Some e)
      | Inr cells \<Rightarrow>
          (case csv_writerow L delimiter cells of
             Inl e \<Rightarrow> ([], Some e)
           | Inr line \<Rightarrow>
               (case writerows L delimiter fieldnames rows of
                  (written, err) \<Rightarrow> (line @ written, err))))"

text \<open>The body of the \<open>with\<close> block of the CSV writer: header, then rows.\<close>

definition DictWriter_write :: "libs \<Rightarrow> ustr \<Rightarrow> pyval \<Rightarrow> nat list \<times> exn option" where
  "DictWriter_write L delimiter d =
     (case first_keys d of
        Inl e \<Rightarrow> ([], Some e)
      | Inr (fieldnames, rows) \<Rightarrow>
          (case csv_writerow L delimiter fieldnames of
             Inl e \<Rightarrow> ([], Some e)
           | Inr header \<Rightarrow>
               (case writerows L delimiter fieldnames rows of
                  (written, err) \<Rightarrow> (header @ written, err))))"

text \<open>Writing through an open file: what was written before an exception stays.\<close>

definition write_file :: "fs \<Rightarrow> ustr \<Rightarrow> nat list \<times> exn option \<Rightarrow> (exn + bool) \<times> fs" where
  "write_file F outputPath w =
     (case ensure_directory F outputPath of
        (Some e, F1) \<Rightarrow> (Inl e, F1)
      | (None, F1) \<Rightarrow>
          (case open_w F1 outputPath of
             Inl e \<Rightarrow> (Inl e, F1)
           | Inr F2 \<Rightarrow>
               (case w of
                  (written, Some e) \<Rightarrow> (Inl e, F2(outputPath \<mapsto> File written))
                | (written, None) \<Rightarrow> (Inr True, F2(outputPath \<mapsto> File written)))))"

fun writeData :: "libs \<Rightarrow> fs \<Rightarrow> converter \<Rightarrow> ustr \<Rightarrow> (exn + bool) \<times> fs" where
  "writeData L F (CSVConverter filePath d delimiter) outputPath =
     (if \<not> py_truthy d then (Inr False, F)
      else write_file F outputPath (DictWriter_write L delimiter d))"
| "writeData L F (JSONConverter filePath d) outputPath =
     write_file F outputPath (json_dump L d)"

section \<open>FileConverter\<close>

definition getConverter :: "ucd \<Rightarrow> fs \<Rightarrow> ustr \<Rightarrow> exn + converter" where
  "getConverter U F filePath =
     (let ext = str_lower U (snd (os_path_splitext filePath))
      in if ext = u ''.csv'' then CSVConverter_init F filePath (u '','')
         else if ext = u ''.json'' then JSONConverter_init F filePath
         else Inl (ValueError (u ''Formato no compatible: '' @ ext)))"

text \<open>The loops of \<open>cleanData\<close> run over whatever \<open>readData\<close> returned: \<open>for item in data\<close>
  needs an iterable and \<open>item.items()\<close> a dictionary.\<close>

fun all_items :: "pyval list \<Rightarrow> exn + pydict list" where
  "all_items [] = Inr []"
| "all_items (PDict d # xs) =
     (case all_items xs of Inl e \<Rightarrow> Inl e | Inr ds \<Rightarrow> Inr (d # ds))"
| "all_items (x # xs) = Inl AttributeError"

fun iter_records :: "pyval \<Rightarrow> exn + pydict list" where
  "iter_records (PList xs) = all_items xs"
| "iter_records (PDict d) = all_items (map fst d)"
| "iter_records (PStr s) = all_items (map (\<lambda>c. PStr [c]) s)"
| "iter_records v = Inl TypeError"

fun set_data :: "converter \<Rightarrow> pyval \<Rightarrow> converter" where
  "set_data (CSVConverter filePath d delimiter) d' = CSVConverter filePath d' delimiter"
| "set_data (JSONConverter filePath d) d' = JSONConverter filePath d'"

definition invalid_format_message :: ustr where
  "invalid_format_message = u ''Formato de entrada inv'' @ [0xE1] @ u ''lido''"

definition convert :: "ucd \<Rightarrow> libs \<Rightarrow> fs \<Rightarrow> ustr \<Rightarrow> ustr \<Rightarrow> (exn + bool) \<times> fs" where
  "convert U L F inputPath outputPath =
     (if \<not> os_path_exists F inputPath
      then (Inl (FileNotFoundError (u ''Archivo de entrada no existe: '' @ inputPath)), F)
      else case getConverter U F inputPath of
        Inl e \<Rightarrow> (Inl e, F)
      | Inr inputConverter \<Rightarrow>
          (case validateFormat L F inputConverter of
             Inl e \<Rightarrow> (Inl e, F)
           | Inr False \<Rightarrow> (Inl (ValueError invalid_format_message), F)
           | Inr True \<Rightarrow>
               (case readData L F inputConverter of
                  Inl e \<Rightarrow> (Inl e, F)
                | Inr d \<Rightarrow>
                    (case iter_records d of
                       Inl e \<Rightarrow> (Inl e, F)
                     | Inr records \<Rightarrow>
                         (let cleanedData = cleanData U records in
                          case getConverter U F outputPath of
                            Inl e \<Rightarrow> (Inl e, F)
                          | Inr outputConverter \<Rightarrow>
                              writeData L F
                                (set_data outputConverter (PList (map PDict cleanedData)))
                                outputPath)))))"


section \<open>The specification's reading of the normalizer\<close>

text \<open>
  The cleaned record as the specification words it: the fields are cleaned one by one;
  a key stands where it first appears, with the value of its last appearance.
\<close>

fun spec_merge :: "pydict \<Rightarrow> pydict" where
  "spec_merge [] = []"
| "spec_merge ((k, v) # fs) =
     (k, case map_of (rev fs) k of None \<Rightarrow> v | Some v' \<Rightarrow> v')
       # spec_merge (filter (\<lambda>kv. fst kv \<noteq> k) fs)"

fun spec_cleanValue :: "ucd \<Rightarrow> pyval \<Rightarrow> pyval" where
  "spec_cleanValue U PNone = PStr (u ''n/a'')"
| "spec_cleanValue U (PStr s) =
     (if normalizeText U (PStr s) = PStr [] then PStr (u ''n/a'')
      else normalizeText U (PStr s))"
| "spec_cleanValue U v = v"

definition spec_cleanRecord :: "ucd \<Rightarrow> pydict \<Rightarrow> pydict" where
  "spec_cleanRecord U r =
     spec_merge (map (\<lambda>kv. (normalizeKey U (fst kv), spec_cleanValue U (snd kv))) r)"

definition spec_cleanData :: "ucd \<Rightarrow> pydict list \<Rightarrow> pydict list" where
  "spec_cleanData U d = map (spec_cleanRecord U) d"

text \<open>The characters the specification names: ASCII letters, digits and the underscore;
  the sanitized key pattern \<open>[a-z0-9_]+\<close>; trimming, taken from the end first.\<close>

definition is_ascii_letter :: "nat \<Rightarrow> bool" where
  "is_ascii_letter c = ((65 \<le> c \<and> c \<le> 90) \<or> (97 \<le> c \<and> c \<le> 122))"

definition is_ascii_digit :: "nat \<Rightarrow> bool" where
  "is_ascii_digit c = (48 \<le> c \<and> c \<le> 57)"

definition spec_replace :: "nat \<Rightarrow> nat" where
  "spec_replace c = (if is_ascii_letter c \<or> is_ascii_digit c \<or> c = 95 then c else 95)"

definition key_char :: "nat \<Rightarrow> bool" where
  "key_char c = ((97 \<le> c \<and> c \<le> 122) \<or> is_ascii_digit c \<or> c = 95)"

fun matches_key_pattern :: "pyval \<Rightarrow> bool" where
  "matches_key_pattern (PStr s) = (s \<noteq> [] \<and> list_all key_char s)"
| "matches_key_pattern k = False"

definition spec_trim :: "ucd \<Rightarrow> ustr \<Rightarrow> ustr" where
  "spec_trim U s = dropWhile (is_space U) (rev (dropWhile (is_space U) (rev s)))"

text \<open>The cells of a record under the header: the value of each header key, the empty
  string where the record has none.\<close>

definition spec_row :: "pyval list \<Rightarrow> pydict \<Rightarrow> pyval list" where
  "spec_row keys r = map (\<lambda>key. case map_of r key of Some v \<Rightarrow> v | None \<Rightarrow> PStr []) keys"

text \<open>An extension is a casing of \<open>t\<close> when it is ASCII and differs from \<open>t\<close> at most in
  the case of its letters.\<close>

definition casing_of :: "ustr \<Rightarrow> ustr \<Rightarrow> bool" where
  "casing_of t e = (list_all (\<lambda>c. c < 128) e \<and> map ascii_lower e = t)"

section \<open>An instance of the libraries on plain text\<close>

text \<open>
  For the examples: the \<open>csv\<close> and \<open>json\<close> modules restricted to printable ASCII without
  quotes and backslashes, where a CSV cell is written as it is and a JSON string is its
  text between quotes. The instance reports an exception outside this fragment (the
  modules would go on there) and reads no JSON document but the empty array.
\<close>

definition plain_char :: "nat \<Rightarrow> bool" where
  "plain_char c = (32 \<le> c \<and> c < 127 \<and> c \<noteq> 34 \<and> c \<noteq> 92)"

fun split_on :: "nat \<Rightarrow> ustr \<Rightarrow> ustr list" where
  "split_on sep [] = [[]]"
| "split_on sep (c # cs) =
     (if c = sep then [] # split_on sep cs
      else case split_on sep cs of [] \<Rightarrow> [[c]] | w # ws \<Rightarrow> (c # w) # ws)"

fun join :: "ustr \<Rightarrow> ustr list \<Rightarrow> ustr" where
  "join sep [] = []"
| "join sep [x] = x"
| "join sep (x # y # ys) = x @ sep @ join sep (y # ys)"

definition plain_lines :: "ustr \<Rightarrow> ustr list" where
  "plain_lines content =
     (let ls = split_on 10 content in if last ls = [] then butlast ls else ls)"

definition plain_csv_reader :: "ustr \<Rightarrow> nat list \<Rightarrow> ustr list list \<times> exn option" where
  "plain_csv_reader delimiter content =
     (case delimiter of
        [d] \<Rightarrow>
          (if plain_char d \<and> list_all (\<lambda>c. plain_char c \<or> c = 10) content
           then (map (\<lambda>l. if l = [] then [] else split_on d l) (plain_lines content), None)
           else ([], Some CsvError))
      | _ \<Rightarrow> ([], Some TypeError))"

fun plain_cell :: "nat \<Rightarrow> pyval \<Rightarrow> ustr option" where
  "plain_cell d PNone = Some []"
| "plain_cell d (PStr s) = (if list_all (\<lambda>c. plain_char c \<and> c \<noteq> d) s then Some s else None)"
| "plain_cell d v = None"

definition plain_csv_writerow :: "ustr \<Rightarrow> pyval list \<Rightarrow> exn + nat list" where
  "plain_csv_writerow delimiter cells =
     (case delimiter of
        [d] \<Rightarrow>
          (if plain_char d \<and> list_all (\<lambda>c. plain_cell d c \<noteq> None) cells
           then (let texts = map (\<lambda>c. case plain_cell d c of Some s \<Rightarrow> s | None \<Rightarrow> []) cells
                 in Inr ((if texts = [[]] then [34, 34] else join [d] texts) @ [13, 10]))
           else Inl CsvError)
      | _ \<Rightarrow> Inl TypeError)"

fun plain_json_field :: "pyval \<times> pyval \<Rightarrow> ustr option" where
  "plain_json_field (PStr k, PStr v) =
     (if list_all plain_char k \<and> list_all plain_char v
      then Some (u ''        '' @ [34] @ k @ [34] @ u '': '' @ [34] @ v @ [34])
      else None)"
| "plain_json_field kv = None"

fun plain_json_object :: "pyval \<Rightarrow> ustr option" where
  "plain_json_object (PDict []) = Some (u ''    {}'')"
| "plain_json_object (PDict flds) =
     (if list_all (\<lambda>f. plain_json_field f \<noteq> None) flds
      then Some (u ''    {'' @ [10]
                 @ join [44, 10] (map (\<lambda>f. case plain_json_field f of Some t \<Rightarrow> t | None \<Rightarrow> [])
                                    flds)
                 @ [10] @ u ''    }'')
      else None)"
| "plain_json_object v = None"

fun plain_json_dump :: "pyval \<Rightarrow> nat list \<times> exn option" where
  "plain_json_dump (PList []) = (u ''[]'', None)"
| "plain_json_dump (PList xs) =
     (if list_all (\<lambda>x. plain_json_object x \<noteq> None) xs
      then (u ''['' @ [10]
            @ join [44, 10] (map (\<lambda>x. case plain_json_object x of Some t \<Rightarrow> t | None \<Rightarrow> []) xs)
            @ [10] @ u '']'', None)
      else ([], Some TypeError))"
| "plain_json_dump v = ([], Some TypeError)"

definition plain_json_load :: "nat list \<Rightarrow> exn + pyval" where
  "plain_json_load content = (if content = u ''[]'' then Inr (PList []) else Inl JSONDecodeError)"

definition plain_libs :: libs where
  "plain_libs =
     \<lparr> csv_reader = plain_csv_reader,
       csv_writerow = plain_csv_writerow,
       json_load = plain_json_load,
       json_dump = plain_json_dump \<rparr>"



section \<open>Dictionaries: the loop and the specification's merge\<close>

lemma spec_merge_snoc:
  "spec_merge (fs @ [(k, v)]) = dict_set (spec_merge fs) k v"
proof (induction fs rule: spec_merge.induct)
  case 1
  show ?case by simp
next
  case (2 k0 v0 fs)
  show ?case
  proof (cases "k0 = k")
    case True
    then show ?thesis by simp
  next
    case False
    then show ?thesis using 2 by simp
  qed
qed

lemma foldl_dict_set_spec_merge:
  "foldl (\<lambda>d kv. dict_set d (fst kv) (snd kv)) [] fs = spec_merge fs"
proof (induction fs rule: rev_induct)
  case Nil
  show ?case by simp
next
  case (snoc x xs)
  obtain k v where x: "x = (k, v)" by (cases x)
  show ?case using snoc by (simp add: x spec_merge_snoc)
qed

lemma cleanValue_spec: "cleanValue U v = spec_cleanValue U v"
  by (cases v) (simp_all add: cleanValue_def is_str_def Let_def)

lemma foldl_cleanField:
  "foldl (cleanField U) acc item =
   foldl (\<lambda>d kv. dict_set d (fst kv) (snd kv)) acc
     (map (\<lambda>kv. (normalizeKey U (fst kv), spec_cleanValue U (snd kv))) item)"
  by (induction item arbitrary: acc) (auto simp: cleanField_def cleanValue_spec)

lemma cleanItem_spec: "cleanItem U item = spec_cleanRecord U item"
  by (simp add: cleanItem_def spec_cleanRecord_def foldl_cleanField foldl_dict_set_spec_merge)

lemma cleanData_map: "cleanData U d = map (cleanItem U) d"
proof -
  have "foldl (\<lambda>acc item. acc @ [cleanItem U item]) acc d = acc @ map (cleanItem U) d" for acc
    by (induction d arbitrary: acc) simp_all
  then show ?thesis by (simp add: cleanData_def)
qed

lemma spec_merge_subset: "kv \<in> set (spec_merge fs) \<Longrightarrow> kv \<in> set fs"
proof (induction fs arbitrary: kv rule: spec_merge.induct)
  case 1
  then show ?case by simp
next
  case (2 k v fs)
  from "2.prems" consider
      (hd) "kv = (k, case map_of (rev fs) k of None \<Rightarrow> v | Some v' \<Rightarrow> v')"
    | (tl) "kv \<in> set (spec_merge (filter (\<lambda>kv. fst kv \<noteq> k) fs))"
    by auto
  then show ?case
  proof cases
    case hd
    show ?thesis
    proof (cases "map_of (rev fs) k")
      case None
      with hd show ?thesis by simp
    next
      case (Some v')
      then have "(k, v') \<in> set (rev fs)" by (rule map_of_SomeD)
      with hd Some show ?thesis by simp
    qed
  next
    case tl
    then have "kv \<in> set (filter (\<lambda>kv. fst kv \<noteq> k) fs)" by (rule "2.IH")
    then show ?thesis by simp
  qed
qed

lemma spec_merge_distinct: "distinct (map fst (spec_merge fs))"
proof (induction fs rule: spec_merge.induct)
  case 1
  show ?case by simp
next
  case (2 k v fs)
  have "k \<notin> fst ` set (spec_merge (filter (\<lambda>kv. fst kv \<noteq> k) fs))"
  proof
    assume "k \<in> fst ` set (spec_merge (filter (\<lambda>kv. fst kv \<noteq> k) fs))"
    then obtain kv where kv: "kv \<in> set (spec_merge (filter (\<lambda>kv. fst kv \<noteq> k) fs))" "fst kv = k"
      by auto
    from spec_merge_subset [OF kv(1)] kv(2) show False by simp
  qed
  with 2 show ?case by simp
qed

lemma spec_merge_id: "distinct (map fst fs) \<Longrightarrow> spec_merge fs = fs"
proof (induction fs)
  case Nil
  show ?case by simp
next
  case (Cons kv fs)
  obtain k v where kv: "kv = (k, v)" by (cases kv)
  from Cons.prems kv have notin: "k \<notin> fst ` set fs" and d: "distinct (map fst fs)" by auto
  have m: "map_of (rev fs) k = None"
    using notin by (simp add: map_of_eq_None_iff)
  have f: "filter (\<lambda>kv. fst kv \<noteq> k) fs = fs"
    using notin by (auto simp: filter_id_conv)
  show ?case using Cons.IH [OF d] by (simp add: kv m f)
qed

section \<open>The normalizer on ASCII text\<close>

lemma foldl_reorder_ccc0:
  "\<forall>c \<in> set s. ccc U c = 0 \<Longrightarrow>
   foldl (\<lambda>acc c. reorder_insert U c acc) acc s = rev s @ acc"
proof (induction s arbitrary: acc)
  case Nil
  show ?case by simp
next
  case (Cons c s)
  have "reorder_insert U c acc = c # acc" using Cons.prems by (cases acc) simp_all
  then show ?case using Cons by simp
qed

lemma NFD_ascii: "list_all (\<lambda>c. c < 128) s \<Longrightarrow> NFD U s = s"
proof -
  assume a: "list_all (\<lambda>c. c < 128) s"
  have c: "concat (map (decomp U) s) = s"
    using a by (induction s) (simp_all add: decomp_def)
  have "\<forall>c \<in> set s. ccc U c = 0" using a by (simp add: list_all_iff ccc_def)
  then show ?thesis by (simp add: NFD_def c canonical_order_def foldl_reorder_ccc0)
qed

lemma removeAccents_str_ascii: "list_all (\<lambda>c. c < 128) s \<Longrightarrow> removeAccents_str U s = s"
  by (auto simp: removeAccents_str_def NFD_ascii is_Mn_def list_all_iff filter_id_conv)

lemma lower_from_ascii:
  "list_all (\<lambda>c. c < 128) s \<Longrightarrow> lower_from U pre s = map ascii_lower s"
  by (induction s arbitrary: pre) (simp_all add: lower_cp_def)

lemma str_lower_ascii: "list_all (\<lambda>c. c < 128) s \<Longrightarrow> str_lower U s = map ascii_lower s"
  by (simp add: str_lower_def lower_from_ascii)

lemma re_sub_key_spec: "re_sub_key s = map spec_replace s"
  by (auto simp: re_sub_key_def spec_replace_def in_ranges_def key_class_ranges_def
      is_ascii_letter_def is_ascii_digit_def)

lemma spec_replace_ascii: "spec_replace c < 128"
  by (auto simp: spec_replace_def is_ascii_letter_def is_ascii_digit_def)

lemma key_char_lower_replace: "key_char (ascii_lower (spec_replace c))"
  by (auto simp: key_char_def ascii_lower_def spec_replace_def is_ascii_letter_def is_ascii_digit_def)

lemma key_char_fix: "key_char c \<Longrightarrow> ascii_lower (spec_replace c) = c \<and> c < 128"
  by (auto simp: key_char_def ascii_lower_def spec_replace_def is_ascii_letter_def is_ascii_digit_def)

lemma normalizeKey_str:
  "normalizeKey U (PStr key) = PStr (map (\<lambda>c. ascii_lower (spec_replace c)) (removeAccents_str U key))"
proof -
  have "list_all (\<lambda>c. c < 128) (map spec_replace (removeAccents_str U key))"
    by (simp add: list_all_iff spec_replace_ascii)
  then show ?thesis by (simp add: re_sub_key_spec str_lower_ascii)
qed

lemma normalizeKey_key_chars: "normalizeKey U k = PStr s \<Longrightarrow> list_all key_char s"
proof (cases k)
  case (PStr x)
  assume "normalizeKey U k = PStr s"
  with PStr have "s = map (\<lambda>c. ascii_lower (spec_replace c)) (removeAccents_str U x)"
    by (simp only: normalizeKey_str pyval.inject)
  then show ?thesis by (simp add: list_all_iff key_char_lower_replace)
qed simp_all

lemma normalizeKey_fix: "list_all key_char s \<Longrightarrow> normalizeKey U (PStr s) = PStr s"
proof -
  assume a: "list_all key_char s"
  then have "list_all (\<lambda>c. c < 128) s" by (simp add: list_all_iff key_char_fix)
  then have r: "removeAccents_str U s = s" by (rule removeAccents_str_ascii)
  have "map (\<lambda>c. ascii_lower (spec_replace c)) s = s"
    using a by (simp add: list_all_iff key_char_fix map_idI)
  then show ?thesis by (simp only: normalizeKey_str r)
qed

lemma normalizeKey_idem: "normalizeKey U (normalizeKey U k) = normalizeKey U k"
proof (cases k)
  case (PStr s)
  obtain t where t: "normalizeKey U (PStr s) = PStr t" by (simp add: normalizeKey_str)
  from normalizeKey_key_chars [OF t] have "normalizeKey U (PStr t) = PStr t"
    by (rule normalizeKey_fix)
  with t PStr show ?thesis by simp
qed simp_all


lemma cleanItem_fields:
  assumes "(k', v') \<in> set (cleanItem U r)"
  shows "\<exists>k v. (k, v) \<in> set r \<and> k' = normalizeKey U k \<and> v' = cleanValue U v"
proof -
  from assms have "(k', v') \<in> set (map (\<lambda>kv. (normalizeKey U (fst kv), spec_cleanValue U (snd kv))) r)"
    unfolding cleanItem_spec spec_cleanRecord_def by (rule spec_merge_subset)
  then show ?thesis by (fastforce simp: cleanValue_spec)
qed

lemma cleanValue_not_empty: "cleanValue U v \<noteq> PNone \<and> cleanValue U v \<noteq> PStr []"
  by (simp add: cleanValue_def Let_def u_def)

lemma normalizeKey_not_str: "\<not> is_str k \<Longrightarrow> normalizeKey U k = k"
  by (cases k) (simp_all add: is_str_def)

section \<open>Trimming\<close>

lemma str_strip_decomp:
  "\<exists>pre post. s = pre @ str_strip U s @ post \<and> list_all (is_space U) pre
      \<and> list_all (is_space U) post
      \<and> (str_strip U s \<noteq> [] \<longrightarrow>
            \<not> is_space U (hd (str_strip U s)) \<and> \<not> is_space U (last (str_strip U s)))"
proof -
  let ?P = "is_space U"
  let ?a = "dropWhile ?P s"
  let ?b = "rev (dropWhile ?P (rev ?a))"
  let ?post = "rev (takeWhile ?P (rev ?a))"
  have b: "str_strip U s = ?b" by (simp add: str_strip_def)
  have a: "?a = ?b @ ?post" by (metis rev_append rev_rev_ident takeWhile_dropWhile_id)
  have s: "s = takeWhile ?P s @ ?b @ ?post" using a by (metis takeWhile_dropWhile_id)
  have p1: "list_all ?P (takeWhile ?P s)" by (auto simp: list_all_iff dest: set_takeWhileD)
  have p2: "list_all ?P ?post" by (auto simp: list_all_iff dest: set_takeWhileD)
  have ends: "\<not> ?P (hd ?b) \<and> \<not> ?P (last ?b)" if ne: "?b \<noteq> []"
  proof -
    from ne have ne': "dropWhile ?P (rev ?a) \<noteq> []" by simp
    have "last ?b = hd (dropWhile ?P (rev ?a))" using ne' by (simp add: last_rev)
    then have l: "\<not> ?P (last ?b)" using hd_dropWhile [OF ne'] by simp
    have ane: "?a \<noteq> []"
    proof
      assume "?a = []"
      then have "?b = []" by (simp only: rev.simps dropWhile.simps)
      with ne show False by simp
    qed
    have "hd ?b = hd ?a" using a ne by (metis hd_append2)
    then have "\<not> ?P (hd ?b)" using hd_dropWhile [OF ane] by simp
    with l show ?thesis by simp
  qed
  show ?thesis
    unfolding b using s p1 p2 ends by blast
qed

lemma str_strip_fix:
  "t = [] \<or> (\<not> is_space U (hd t) \<and> \<not> is_space U (last t)) \<Longrightarrow> str_strip U t = t"
proof (cases "t = []")
  case True
  then show ?thesis by (simp add: str_strip_def)
next
  case False
  assume "t = [] \<or> (\<not> is_space U (hd t) \<and> \<not> is_space U (last t))"
  with False have h: "\<not> is_space U (hd t)" and l: "\<not> is_space U (last t)" by simp_all
  have 1: "dropWhile (is_space U) t = t" using h by (simp add: dropWhile_eq_self_iff)
  have 2: "dropWhile (is_space U) (rev t) = rev t"
    using l False by (simp add: dropWhile_eq_self_iff hd_rev)
  show ?thesis by (simp add: str_strip_def 1 2)
qed

lemma str_strip_idem: "str_strip U (str_strip U s) = str_strip U s"
  using str_strip_decomp [of s U] by (intro str_strip_fix) blast

lemma str_strip_subset: "set (str_strip U s) \<subseteq> set s"
proof -
  from str_strip_decomp [of s U] obtain pre post where "s = pre @ str_strip U s @ post" by blast
  then have "set s = set pre \<union> set (str_strip U s) \<union> set post" by (metis set_append Un_assoc)
  then show ?thesis by blast
qed

lemma spec_trim_eq: "str_strip U s = spec_trim U s"
proof -
  let ?P = "is_space U"
  from str_strip_decomp [of s U] obtain pre post where
    s: "s = pre @ str_strip U s @ post" and pre: "list_all ?P pre" and post: "list_all ?P post"
    and ends: "str_strip U s \<noteq> [] \<longrightarrow> \<not> ?P (hd (str_strip U s)) \<and> \<not> ?P (last (str_strip U s))"
    by blast
  let ?t = "str_strip U s"
  show ?thesis
  proof (cases "?t = []")
    case True
    with s have "s = pre @ post" by simp
    then have "list_all ?P s" using pre post by (metis list_all_append)
    then have "list_all ?P (rev s)" by (simp add: list_all_iff)
    then have d: "dropWhile ?P (rev s) = []" by (simp add: list_all_iff)
    show ?thesis by (simp only: spec_trim_def d True rev.simps dropWhile.simps)
  next
    case False
    with ends have h: "\<not> ?P (hd ?t)" and l: "\<not> ?P (last ?t)" by simp_all
    have rs: "rev s = rev post @ rev ?t @ rev pre" using s by (metis rev_append append_assoc)
    have "dropWhile ?P (rev post @ rev ?t @ rev pre) = dropWhile ?P (rev ?t @ rev pre)"
      by (rule dropWhile_append2) (use post in \<open>simp add: list_all_iff\<close>)
    then have "dropWhile ?P (rev s) = dropWhile ?P (rev ?t @ rev pre)"
      by (simp only: rs)
    also have "\<dots> = rev ?t @ rev pre"
    proof -
      have "hd (rev ?t @ rev pre) = last ?t" using False by (simp add: hd_rev)
      then show ?thesis using l by (simp only: dropWhile_eq_self_iff) simp
    qed
    finally have "rev (dropWhile ?P (rev s)) = pre @ ?t" by simp
    then have "spec_trim U s = dropWhile ?P (pre @ ?t)" by (simp add: spec_trim_def)
    also have "\<dots> = dropWhile ?P ?t"
      by (rule dropWhile_append2) (use pre in \<open>simp add: list_all_iff\<close>)
    also have "\<dots> = ?t" using h by (simp add: dropWhile_eq_self_iff)
    finally show ?thesis by simp
  qed
qed

text \<open>The definitions that evaluate the normalizer on a concrete text.\<close>

lemmas eval_normalizer =
  cleanData_def cleanItem_def cleanField_def cleanValue_def is_str_def str_strip_def
  is_space_def u_def removeAccents_str_def NFD_def canonical_order_def decomp_def ccc_def
  is_Mn_def re_sub_key_def in_ranges_def key_class_ranges_def str_lower_def lower_cp_def
  ascii_lower_def ucd_excerpt_def excerpt_decomp_def excerpt_ccc_def

section \<open>cleanData against its reference definition\<close>

text \<open>
  Claim C1. For every dataset, \<open>cleanData\<close> returns what the reference definition of the
  specification returns: the records in their order, each one built from its fields in
  their order, the key through \<open>normalizeKey\<close>, the value through \<open>normalizeText\<close> when it
  is a string, \<open>None\<close> and the empty string replaced by \<open>"n/a"\<close>; a key stands where it
  first appears, and of two fields with the same sanitized key the later value stays.
\<close>

theorem cleanData_refines_spec: "cleanData U d = spec_cleanData U d"
proof -
  have "cleanData U d = map (cleanItem U) d" by (rule cleanData_map)
  also have "\<dots> = map (spec_cleanRecord U) d" by (simp add: cleanItem_spec)
  also have "\<dots> = spec_cleanData U d" by (simp add: spec_cleanData_def)
  finally show ?thesis .
qed

section \<open>The invariant of cleaned records\<close>

text \<open>
  Claim C4, as amended. In every record that \<open>cleanData\<close> returns, every key that is a
  string consists of lowercase ASCII letters, digits and underscores only (it may be
  empty), and no value is \<open>None\<close> or the empty string.
\<close>

theorem cleanData_keys_values:
  "\<forall>r \<in> set (cleanData U d). \<forall>(k, v) \<in> set r.
     (\<forall>s. k = PStr s \<longrightarrow> list_all key_char s) \<and> v \<noteq> PNone \<and> v \<noteq> PStr []"
proof (intro ballI, clarify)
  fix r k v
  assume r: "r \<in> set (cleanData U d)" and kv: "(k, v) \<in> set r"
  from r obtain r0 where r0: "r = cleanItem U r0" by (auto simp: cleanData_map)
  from cleanItem_fields [OF kv [unfolded r0]] obtain k0 v0
    where k: "k = normalizeKey U k0" and v: "v = cleanValue U v0" by blast
  have "\<forall>s. k = PStr s \<longrightarrow> list_all key_char s"
    using k normalizeKey_key_chars [of U k0] by auto
  moreover have "v \<noteq> PNone \<and> v \<noteq> PStr []" unfolding v by (rule cleanValue_not_empty)
  ultimately show "(\<forall>s. k = PStr s \<longrightarrow> list_all key_char s) \<and> v \<noteq> PNone \<and> v \<noteq> PStr []"
    by simp
qed

text \<open>The key that matches no \<open>[a-z0-9_]+\<close>: the empty field name stays empty.\<close>

theorem cleanData_empty_key_counterexample:
  "cleanData ucd_excerpt [[(PStr [], PStr (u ''x''))]] = [[(PStr [], PStr (u ''x''))]]
   \<and> \<not> matches_key_pattern (PStr [])"
  by (simp add: eval_normalizer)

theorem cleanData_keys_values_witness:
  "cleanData ucd_excerpt [[(PStr (u ''Nombre''), PStr [])]] = [[(PStr (u ''nombre''), PStr (u ''n/a''))]]
   \<and> list_all key_char (u ''nombre'') \<and> PStr (u ''n/a'') \<noteq> PNone \<and> PStr (u ''n/a'') \<noteq> PStr []"
proof -
  have e: "cleanData ucd_excerpt [[(PStr (u ''Nombre''), PStr [])]] = [[(PStr (u ''nombre''), PStr (u ''n/a''))]]"
    by (simp add: eval_normalizer)
  from cleanData_keys_values [of ucd_excerpt "[[(PStr (u ''Nombre''), PStr [])]]"]
  show ?thesis unfolding e by simp
qed


section \<open>Idempotence of cleanData\<close>

lemma normalizeText_sentinel: "normalizeText U (PStr (u ''n/a'')) = PStr (u ''n/a'')"
proof -
  have a: "list_all (\<lambda>c. c < 128) (u ''n/a'')" by (simp add: u_def)
  show ?thesis
    by (simp add: removeAccents_str_ascii [OF a] str_lower_ascii [OF a])
       (simp add: u_def ascii_lower_def str_strip_def is_space_def)
qed

lemma cleanValue_sentinel: "cleanValue U (PStr (u ''n/a'')) = PStr (u ''n/a'')"
  unfolding cleanValue_def is_str_def
  by (simp only: normalizeText_sentinel pyval.case Let_def if_True) (simp add: u_def)

lemma cleanValue_idem:
  assumes "normalizeText U (normalizeText U v) = normalizeText U v"
  shows "cleanValue U (cleanValue U v) = cleanValue U v"
proof (cases v)
  case (PStr s)
  obtain t where t: "normalizeText U (PStr s) = PStr t" by (simp add: Let_def)
  show ?thesis
  proof (cases "t = []")
    case True
    have 1: "cleanValue U v = PStr (u ''n/a'')"
      using PStr t True by (simp add: cleanValue_def is_str_def)
    show ?thesis by (simp only: 1 cleanValue_sentinel)
  next
    case False
    have 1: "cleanValue U v = PStr t"
      using PStr t False by (simp add: cleanValue_def is_str_def)
    from assms PStr t have "normalizeText U (PStr t) = PStr t" by simp
    then have 2: "cleanValue U (PStr t) = PStr t"
      using False by (simp add: cleanValue_def is_str_def)
    show ?thesis by (simp only: 1 2)
  qed
next
  case PNone
  have 1: "cleanValue U PNone = PStr (u ''n/a'')" by (simp add: cleanValue_def is_str_def)
  show ?thesis by (simp only: PNone 1 cleanValue_sentinel)
qed (simp_all add: cleanValue_def is_str_def)

lemma cleanItem_idem:
  assumes "\<forall>(k, v) \<in> set r. normalizeText U (normalizeText U v) = normalizeText U v"
  shows "cleanItem U (cleanItem U r) = cleanItem U r"
proof -
  let ?cf = "\<lambda>kv. (normalizeKey U (fst kv), spec_cleanValue U (snd kv))"
  let ?m = "cleanItem U r"
  have fixed: "?cf kv = kv" if "kv \<in> set ?m" for kv
  proof -
    obtain k' v' where kv: "kv = (k', v')" by (cases kv)
    from cleanItem_fields [OF that [unfolded kv]] obtain k v
      where in_r: "(k, v) \<in> set r" and k': "k' = normalizeKey U k" and v': "v' = cleanValue U v"
      by blast
    from assms in_r have "normalizeText U (normalizeText U v) = normalizeText U v" by auto
    then have "cleanValue U v' = v'" unfolding v' by (rule cleanValue_idem)
    moreover have "normalizeKey U k' = k'" unfolding k' by (rule normalizeKey_idem)
    ultimately show ?thesis by (simp add: kv cleanValue_spec [symmetric])
  qed
  have "map ?cf ?m = ?m" using fixed by (simp add: map_idI)
  moreover have "spec_merge ?m = ?m"
    unfolding cleanItem_spec spec_cleanRecord_def
    by (rule spec_merge_id) (rule spec_merge_distinct)
  ultimately show ?thesis
    by (simp add: cleanItem_spec [of U "cleanItem U r"] spec_cleanRecord_def)
qed

lemma ascii_lower_idem: "ascii_lower (ascii_lower c) = ascii_lower c"
  by (simp add: ascii_lower_def)

lemma ascii_lower_ascii: "c < 128 \<Longrightarrow> ascii_lower c < 128"
  by (simp add: ascii_lower_def)

lemma normalizeText_ascii_stable:
  assumes a: "list_all (\<lambda>c. c < 128) s"
  shows "normalizeText U (normalizeText U (PStr s)) = normalizeText U (PStr s)"
proof -
  let ?t = "str_strip U (map ascii_lower s)"
  have 1: "normalizeText U (PStr s) = PStr ?t"
    by (simp add: removeAccents_str_ascii [OF a] str_lower_ascii [OF a])
  have sub: "set ?t \<subseteq> ascii_lower ` set s" using str_strip_subset [of U "map ascii_lower s"] by simp
  have ta: "list_all (\<lambda>c. c < 128) ?t"
    using sub a by (auto simp: list_all_iff ascii_lower_ascii)
  have "map ascii_lower ?t = ?t"
    using sub by (intro map_idI) (auto simp: ascii_lower_idem)
  then have 2: "normalizeText U (PStr ?t) = PStr ?t"
    by (simp add: removeAccents_str_ascii [OF ta] str_lower_ascii [OF ta] str_strip_idem)
  show ?thesis by (simp only: 1 2)
qed

text \<open>
  Claim C5, as amended. \<open>cleanData(cleanData(d)) = cleanData(d)\<close> for every dataset whose
  string values \<open>normalizeText\<close> maps to fixed points of \<open>normalizeText\<close>, which it does for
  every ASCII string (\<open>normalizeText_ascii_stable\<close>): \<open>normalizeKey\<close> is idempotent, the
  sentinel is a fixed point, and a cleaned record has no two fields with the same key.
\<close>

theorem cleanData_idempotent_on_stable:
  assumes "\<forall>r \<in> set d. \<forall>(k, v) \<in> set r.
             normalizeText U (normalizeText U v) = normalizeText U v"
  shows "cleanData U (cleanData U d) = cleanData U d"
  using assms by (simp add: cleanData_map cleanItem_idem)

text \<open>
  Where it fails: the value U+1D16D U+034F U+1D165. The joiner U+034F, of category \<open>Mn\<close>
  and class 0, keeps the two marks apart; it is removed, the marks (of category \<open>Mc\<close>)
  stay, and the second normalization puts them in the order of their classes.
\<close>

theorem cleanData_not_idempotent_counterexample:
  "cleanData ucd_excerpt [[(PStr (u ''k''), PStr [0x1D16D, 0x34F, 0x1D165])]]
     = [[(PStr (u ''k''), PStr [0x1D16D, 0x1D165])]]
   \<and> cleanData ucd_excerpt [[(PStr (u ''k''), PStr [0x1D16D, 0x1D165])]]
     = [[(PStr (u ''k''), PStr [0x1D165, 0x1D16D])]]
   \<and> cleanData ucd_excerpt
        (cleanData ucd_excerpt [[(PStr (u ''k''), PStr [0x1D16D, 0x34F, 0x1D165])]])
     \<noteq> cleanData ucd_excerpt [[(PStr (u ''k''), PStr [0x1D16D, 0x34F, 0x1D165])]]"
  by (simp add: eval_normalizer)

theorem cleanData_idempotent_on_stable_witness:
  "cleanData ucd_excerpt
     [[(PStr (u ''A'' @ [0xF1] @ u ''o''), PStr (u ''  CAF'' @ [0xC9] @ u ''  '')),
       (PStr (u ''ano''), PStr [])]] = [[(PStr (u ''ano''), PStr (u ''n/a''))]]
   \<and> cleanData ucd_excerpt [[(PStr (u ''ano''), PStr (u ''n/a''))]]
       = [[(PStr (u ''ano''), PStr (u ''n/a''))]]"
proof -
  let ?d = "[[(PStr (u ''A'' @ [0xF1] @ u ''o''), PStr (u ''  CAF'' @ [0xC9] @ u ''  '')),
              (PStr (u ''ano''), PStr [])]]"
  have h: "\<forall>r \<in> set ?d. \<forall>(k, v) \<in> set r.
        normalizeText ucd_excerpt (normalizeText ucd_excerpt v) = normalizeText ucd_excerpt v"
    by (simp add: eval_normalizer)
  have e: "cleanData ucd_excerpt ?d = [[(PStr (u ''ano''), PStr (u ''n/a''))]]"
    by (simp add: eval_normalizer)
  from cleanData_idempotent_on_stable [OF h] e show ?thesis by simp
qed

section \<open>normalizeKey\<close>

lemma normalizeKey_example_ascii:
  "normalizeKey U (PStr (u ''Nombre Completo'')) = PStr (u ''nombre_completo'')"
  unfolding normalizeKey_str
  by (simp add: removeAccents_str_ascii u_def)
     (simp add: ascii_lower_def spec_replace_def is_ascii_letter_def is_ascii_digit_def)

lemma normalizeKey_example_accent:
  assumes "decomp_tbl U 0xF1 = [0x6E, 0x303]" and "Mn_tbl U 0x303"
  shows "normalizeKey U (PStr (u ''A'' @ [0xF1] @ u ''o (2023)!'')) = PStr (u ''ano__2023__'')"
  unfolding normalizeKey_str using assms
  by (simp add: u_def removeAccents_str_def NFD_def canonical_order_def decomp_def ccc_def
      is_Mn_def ascii_lower_def spec_replace_def is_ascii_letter_def is_ascii_digit_def)

text \<open>
  Claim C6. For a string, \<open>normalizeKey\<close> is \<open>removeAccents\<close>, then every character that
  is not an ASCII letter, a digit or the underscore replaced by the underscore, then the
  lowercasing, which is the lowercasing of ASCII there; any other key is returned
  unchanged. \<open>normalizeKey("Nombre Completo")\<close> is \<open>"nombre_completo"\<close>, and with a database
  that decomposes U+00F1 into \<open>n\<close> and the tilde U+0303 of category \<open>Mn\<close>,
  \<open>normalizeKey("A\<dots>o (2023)!")\<close> with U+00F1 as its second letter is \<open>"ano__2023__"\<close>.
\<close>

theorem normalizeKey_spec:
  "normalizeKey U (PStr key) = PStr (str_lower U (map spec_replace (removeAccents_str U key)))
   \<and> str_lower U (map spec_replace (removeAccents_str U key))
       = map ascii_lower (map spec_replace (removeAccents_str U key))
   \<and> (\<not> is_str k \<longrightarrow> normalizeKey U k = k)
   \<and> normalizeKey U (PStr (u ''Nombre Completo'')) = PStr (u ''nombre_completo'')
   \<and> (decomp_tbl U 0xF1 = [0x6E, 0x303] \<and> Mn_tbl U 0x303 \<longrightarrow>
        normalizeKey U (PStr (u ''A'' @ [0xF1] @ u ''o (2023)!'')) = PStr (u ''ano__2023__''))"
proof -
  have a: "list_all (\<lambda>c. c < 128) (map spec_replace (removeAccents_str U key))"
    by (simp add: list_all_iff spec_replace_ascii)
  have 1: "normalizeKey U (PStr key) = PStr (str_lower U (map spec_replace (removeAccents_str U key)))"
    by (simp add: re_sub_key_spec)
  have 2: "str_lower U (map spec_replace (removeAccents_str U key))
       = map ascii_lower (map spec_replace (removeAccents_str U key))"
    using a by (rule str_lower_ascii)
  show ?thesis
    using 1 2 normalizeKey_not_str [of k U] normalizeKey_example_ascii [of U]
      normalizeKey_example_accent [of U]
    by blast
qed

theorem normalizeKey_spec_witness:
  "\<not> is_str PNone \<and> normalizeKey ucd_excerpt PNone = PNone
   \<and> decomp_tbl ucd_excerpt 0xF1 = [0x6E, 0x303] \<and> Mn_tbl ucd_excerpt 0x303
   \<and> normalizeKey ucd_excerpt (PStr (u ''A'' @ [0xF1] @ u ''o (2023)!'')) = PStr (u ''ano__2023__'')"
proof -
  have h1: "\<not> is_str PNone" by (simp add: is_str_def)
  have h2: "decomp_tbl ucd_excerpt 0xF1 = [0x6E, 0x303] \<and> Mn_tbl ucd_excerpt 0x303"
    by (simp add: ucd_excerpt_def excerpt_decomp_def)
  from normalizeKey_spec [of ucd_excerpt "[]" PNone] h1 h2 show ?thesis by simp
qed

section \<open>normalizeText and removeAccents\<close>

lemma normalizeText_example:
  assumes "decomp_tbl U 0xC9 = [0x45, 0x301]" and "Mn_tbl U 0x301"
  shows "normalizeText U (PStr (u ''  CAF'' @ [0xC9] @ u ''  '')) = PStr (u ''cafe'')"
  using assms
  by (simp add: u_def removeAccents_str_def NFD_def canonical_order_def decomp_def ccc_def
      is_Mn_def str_lower_def lower_cp_def ascii_lower_def str_strip_def is_space_def)

lemma removeAccents_not_str: "\<not> is_str v \<Longrightarrow> removeAccents U v = v"
  by (cases v) (simp_all add: is_str_def)

lemma normalizeText_not_str: "\<not> is_str v \<Longrightarrow> normalizeText U v = v"
  by (cases v) (simp_all add: is_str_def)

text \<open>
  Claim C7, as amended. For a string, \<open>normalizeText\<close> is the lowercased \<open>removeAccents\<close>
  of it without the whitespace at its ends; \<open>removeAccents\<close> is the canonical
  decomposition without exactly the characters of category \<open>Mn\<close>, so that no nonspacing
  mark is left (combining marks of the other categories stay); both return any other
  value unchanged. With a database that decomposes U+00C9 into \<open>E\<close> and the acute U+0301
  of category \<open>Mn\<close>, \<open>normalizeText\<close> of \<open>CAF\<close> and U+00C9 between two spaces on each side
  is \<open>"cafe"\<close>.
\<close>

theorem normalizeText_spec:
  "normalizeText U (PStr s) = PStr (spec_trim U (str_lower U (removeAccents_str U s)))
   \<and> removeAccents U (PStr s) = PStr (filter (\<lambda>c. \<not> is_Mn U c) (NFD U s))
   \<and> (\<forall>t. removeAccents U (PStr s) = PStr t \<longrightarrow> (\<forall>c \<in> set t. \<not> is_Mn U c))
   \<and> (\<not> is_str v \<longrightarrow> normalizeText U v = v \<and> removeAccents U v = v)
   \<and> (decomp_tbl U 0xC9 = [0x45, 0x301] \<and> Mn_tbl U 0x301 \<longrightarrow>
        normalizeText U (PStr (u ''  CAF'' @ [0xC9] @ u ''  '')) = PStr (u ''cafe''))"
proof -
  have 1: "normalizeText U (PStr s) = PStr (spec_trim U (str_lower U (removeAccents_str U s)))"
    by (simp add: spec_trim_eq)
  have 2: "removeAccents U (PStr s) = PStr (filter (\<lambda>c. \<not> is_Mn U c) (NFD U s))"
    by (simp add: removeAccents_str_def)
  have 3: "\<forall>t. removeAccents U (PStr s) = PStr t \<longrightarrow> (\<forall>c \<in> set t. \<not> is_Mn U c)"
    by (auto simp: removeAccents_str_def)
  show ?thesis
    using 1 2 3 normalizeText_not_str [of v U] removeAccents_not_str [of v U]
      normalizeText_example [of U]
    by blast
qed

theorem normalizeText_spec_witness:
  "\<not> is_str (PInt 30) \<and> normalizeText ucd_excerpt (PInt 30) = PInt 30
   \<and> removeAccents ucd_excerpt (PInt 30) = PInt 30
   \<and> removeAccents ucd_excerpt (PStr (u ''caf'' @ [0xE9])) = PStr (u ''cafe'')
   \<and> decomp_tbl ucd_excerpt 0xC9 = [0x45, 0x301] \<and> Mn_tbl ucd_excerpt 0x301
   \<and> normalizeText ucd_excerpt (PStr (u ''  CAF'' @ [0xC9] @ u ''  '')) = PStr (u ''cafe'')"
proof -
  have h1: "\<not> is_str (PInt 30)" by (simp add: is_str_def)
  have h2: "decomp_tbl ucd_excerpt 0xC9 = [0x45, 0x301] \<and> Mn_tbl ucd_excerpt 0x301"
    by (simp add: ucd_excerpt_def excerpt_decomp_def)
  have e: "filter (\<lambda>c. \<not> is_Mn ucd_excerpt c) (NFD ucd_excerpt (u ''caf'' @ [0xE9])) = u ''cafe''"
    by (simp add: eval_normalizer)
  from normalizeText_spec [of ucd_excerpt "u ''caf'' @ [0xE9]" "PInt 30"] h1 h2 e
  show ?thesis by simp
qed

text \<open>
  A combining mark that stays: the musical stem U+1D165 combines (class 216) but is a
  spacing mark, of category \<open>Mc\<close>. In \<open>e\<close>, U+1D165, U+0301 the acute is removed and the
  stem is kept.
\<close>

theorem removeAccents_keeps_spacing_mark_counterexample:
  "removeAccents ucd_excerpt (PStr [0x65, 0x1D165, 0x301]) = PStr [0x65, 0x1D165]
   \<and> ccc ucd_excerpt 0x1D165 = 216
   \<and> \<not> is_Mn ucd_excerpt 0x1D165"
  by (simp add: eval_normalizer)

section \<open>The dispatch on the extension\<close>

lemma lower_from_nonascii:
  "c \<in> set s \<Longrightarrow> 128 \<le> c \<Longrightarrow>
   \<exists>pre post. set (lower_tbl U pre c post) \<subseteq> set (lower_from U pre0 s)"
proof (induction s arbitrary: pre0)
  case Nil
  then show ?case by simp
next
  case (Cons x xs)
  show ?case
  proof (cases "x = c")
    case True
    with Cons.prems have "lower_cp U pre0 x xs = lower_tbl U pre0 c xs" by (simp add: lower_cp_def)
    then have "set (lower_tbl U pre0 c xs) \<subseteq> set (lower_from U pre0 (x # xs))" by simp
    then show ?thesis by blast
  next
    case False
    with Cons.prems have "c \<in> set xs" by simp
    from Cons.IH [OF this Cons.prems(2), of "pre0 @ [x]"] obtain pre post
      where "set (lower_tbl U pre c post) \<subseteq> set (lower_from U (pre0 @ [x]) xs)" by blast
    then have "set (lower_tbl U pre c post) \<subseteq> set (lower_from U pre0 (x # xs))" by auto
    then show ?thesis by blast
  qed
qed

lemma str_lower_casing:
  assumes tbl: "\<forall>pre c post. 128 \<le> c \<longrightarrow> \<not> set (lower_tbl U pre c post) \<subseteq> A"
    and t: "set t \<subseteq> A"
  shows "str_lower U e = t \<longleftrightarrow> casing_of t e"
proof (cases "list_all (\<lambda>c. c < 128) e")
  case True
  then show ?thesis by (simp add: casing_of_def str_lower_ascii)
next
  case False
  then obtain c where c: "c \<in> set e" "128 \<le> c" by (auto simp: list_all_iff not_less)
  from lower_from_nonascii [OF c, of U "[]"] obtain pre post
    where sub: "set (lower_tbl U pre c post) \<subseteq> set (str_lower U e)" by (auto simp: str_lower_def)
  have "str_lower U e \<noteq> t"
  proof
    assume "str_lower U e = t"
    with sub t have "set (lower_tbl U pre c post) \<subseteq> A" by simp
    with tbl c(2) show False by blast
  qed
  with False show ?thesis by (simp add: casing_of_def)
qed

lemma casing_csv_not_json: "casing_of (u ''.csv'') e \<Longrightarrow> \<not> casing_of (u ''.json'') e"
  by (auto simp: casing_of_def u_def)

lemma ucd_excerpt_lower_nonascii:
  "\<forall>pre c post. 128 \<le> c \<longrightarrow> \<not> set (lower_tbl ucd_excerpt pre c post) \<subseteq> set (u ''.csvjon'')"
  by (auto simp: ucd_excerpt_def u_def)

lemmas eval_paths =
  os_path_splitext_def os_path_dirname_def os_path_exists_def lookup_def casing_of_def
  ascii_lower_def u_def

text \<open>
  Claim C10. \<open>getConverter\<close> compares the lowercased extension: with any casing of \<open>.csv\<close>
  it constructs the CSV converter, with any casing of \<open>.json\<close> the JSON converter, and
  it raises the unsupported-format \<open>ValueError\<close> exactly for the extensions that are a
  casing of neither. The database is taken to lowercase no character beyond ASCII into
  text made of the characters of \<open>.csv\<close> and \<open>.json\<close> only, as Unicode does.
\<close>

theorem getConverter_case_insensitive:
  assumes "\<forall>pre c post. 128 \<le> c \<longrightarrow> \<not> set (lower_tbl U pre c post) \<subseteq> set (u ''.csvjon'')"
  shows "(casing_of (u ''.csv'') (snd (os_path_splitext p)) \<longrightarrow>
            getConverter U F p = CSVConverter_init F p (u '',''))
       \<and> (casing_of (u ''.json'') (snd (os_path_splitext p)) \<longrightarrow>
            getConverter U F p = JSONConverter_init F p)
       \<and> ((\<exists>msg. getConverter U F p = Inl (ValueError msg)) \<longleftrightarrow>
            \<not> casing_of (u ''.csv'') (snd (os_path_splitext p))
            \<and> \<not> casing_of (u ''.json'') (snd (os_path_splitext p)))"
proof -
  let ?e = "snd (os_path_splitext p)"
  have csv: "str_lower U ?e = u ''.csv'' \<longleftrightarrow> casing_of (u ''.csv'') ?e"
    by (rule str_lower_casing [OF assms]) (simp add: u_def)
  have json: "str_lower U ?e = u ''.json'' \<longleftrightarrow> casing_of (u ''.json'') ?e"
    by (rule str_lower_casing [OF assms]) (simp add: u_def)
  have ne: "u ''.csv'' \<noteq> u ''.json''" by (simp add: u_def)
  have no_value_error_csv: "CSVConverter_init F p (u '','') \<noteq> Inl (ValueError msg)" for msg
    by (simp add: CSVConverter_init_def DataConverter_init_def)
  have no_value_error_json: "JSONConverter_init F p \<noteq> Inl (ValueError msg)" for msg
    by (simp add: JSONConverter_init_def DataConverter_init_def)
  show ?thesis
  proof (cases "casing_of (u ''.csv'') ?e")
    case True
    then have g: "getConverter U F p = CSVConverter_init F p (u '','')"
      using csv by (simp add: getConverter_def Let_def)
    from True have "\<not> casing_of (u ''.json'') ?e" by (rule casing_csv_not_json)
    with True g no_value_error_csv show ?thesis by simp
  next
    case False
    note not_csv = False
    show ?thesis
    proof (cases "casing_of (u ''.json'') ?e")
      case True
      then have g: "getConverter U F p = JSONConverter_init F p"
        using csv json not_csv by (simp add: getConverter_def Let_def)
      with True not_csv no_value_error_json show ?thesis by simp
    next
      case False
      then have "getConverter U F p = Inl (ValueError (u ''Formato no compatible: '' @ str_lower U ?e))"
        using csv json not_csv by (simp add: getConverter_def Let_def)
      with False not_csv show ?thesis by simp
    qed
  qed
qed

theorem getConverter_case_insensitive_witness:
  "casing_of (u ''.csv'') (snd (os_path_splitext (u ''datos/Notion.CSV'')))
   \<and> getConverter ucd_excerpt (Map.empty(u ''datos/Notion.CSV'' \<mapsto> File []))
         (u ''datos/Notion.CSV'')
       = Inr (CSVConverter (u ''datos/Notion.CSV'') (PList []) (u '',''))
   \<and> casing_of (u ''.json'') (snd (os_path_splitext (u ''out.Json'')))
   \<and> getConverter ucd_excerpt Map.empty (u ''out.Json'')
       = Inl (FileNotFoundError (u ''Archivo no encontrado: out.Json''))"
proof -
  have 1: "casing_of (u ''.csv'') (snd (os_path_splitext (u ''datos/Notion.CSV'')))"
    by (simp add: eval_paths)
  have 2: "casing_of (u ''.json'') (snd (os_path_splitext (u ''out.Json'')))"
    by (simp add: eval_paths)
  have 3: "CSVConverter_init (Map.empty(u ''datos/Notion.CSV'' \<mapsto> File [])) (u ''datos/Notion.CSV'')
             (u '','') = Inr (CSVConverter (u ''datos/Notion.CSV'') (PList []) (u '',''))"
    by (simp add: CSVConverter_init_def DataConverter_init_def os_path_exists_def lookup_def u_def)
  have 4: "JSONConverter_init Map.empty (u ''out.Json'')
             = Inl (FileNotFoundError (u ''Archivo no encontrado: out.Json''))"
    by (simp add: JSONConverter_init_def DataConverter_init_def os_path_exists_def lookup_def u_def)
  from getConverter_case_insensitive [OF ucd_excerpt_lower_nonascii, of "u ''datos/Notion.CSV''"
      "Map.empty(u ''datos/Notion.CSV'' \<mapsto> File [])"]
    getConverter_case_insensitive [OF ucd_excerpt_lower_nonascii, of "u ''out.Json''" Map.empty]
    1 2 3 4
  show ?thesis by simp
qed

section \<open>validateFormat\<close>

text \<open>
  Claim C8. \<open>validateFormat\<close> always returns a boolean and no exception: the CSV variant
  returns true exactly when the file opens and the reader yields a first row, the JSON
  variant exactly when the file opens and \<open>json.load\<close> returns a value.
\<close>

theorem validateFormat_total:
  "(\<exists>b. validateFormat L F conv = Inr b)
   \<and> (validateFormat L F (CSVConverter p d delim) = Inr True \<longleftrightarrow>
        (\<exists>content row rows err.
            open_r F p = Inr content \<and> csv_reader L delim content = (row # rows, err)))
   \<and> (validateFormat L F (JSONConverter p d) = Inr True \<longleftrightarrow>
        (\<exists>content v. open_r F p = Inr content \<and> json_load L content = Inr v))"
proof -
  have total: "\<exists>b. except_return_False body = Inr b" for body
    by (cases body) (auto simp: except_return_False_def)
  have 1: "\<exists>b. validateFormat L F conv = Inr b"
    by (cases conv) (simp_all add: total)
  have 2: "validateFormat L F (CSVConverter p d delim) = Inr True \<longleftrightarrow>
        (\<exists>content row rows err.
            open_r F p = Inr content \<and> csv_reader L delim content = (row # rows, err))"
    by (auto simp: except_return_False_def csv_validate_try_def
        split: sum.splits prod.splits list.splits option.splits)
  have 3: "validateFormat L F (JSONConverter p d) = Inr True \<longleftrightarrow>
        (\<exists>content v. open_r F p = Inr content \<and> json_load L content = Inr v)"
    by (auto simp: except_return_False_def json_validate_try_def split: sum.splits)
  from 1 2 3 show ?thesis by blast
qed

section \<open>Writing CSV\<close>

lemma dict_to_list_within:
  "set (map fst r) \<subseteq> set fieldnames \<Longrightarrow> dict_to_list fieldnames (PDict r) = Inr (spec_row fieldnames r)"
  by (auto simp: spec_row_def list_ex_iff)

lemma dict_to_list_extra:
  "\<not> set (map fst r) \<subseteq> set fieldnames \<Longrightarrow>
   dict_to_list fieldnames (PDict r) = Inl (ValueError (u ''dict contains fields not in fieldnames''))"
  by (auto simp: list_ex_iff)

lemma writerows_within:
  "list_all2 (\<lambda>r line. set (map fst r) \<subseteq> set fieldnames
      \<and> csv_writerow L delim (spec_row fieldnames r) = Inr line) rs lines \<Longrightarrow>
   writerows L delim fieldnames (map PDict rs) = (concat lines, None)"
proof (induction rs lines rule: list_all2_induct)
  case Nil
  show ?case by simp
next
  case (Cons r rs line lines)
  then show ?case by (simp add: dict_to_list_within del: dict_to_list.simps)
qed

lemma writerows_extra:
  "\<exists>r \<in> set rs. \<not> set (map fst r) \<subseteq> set fieldnames \<Longrightarrow>
   \<exists>w e. writerows L delim fieldnames (map PDict rs) = (w, Some e)"
proof (induction rs)
  case Nil
  then show ?case by simp
next
  case (Cons r rs)
  show ?case
  proof (cases "set (map fst r) \<subseteq> set fieldnames")
    case False
    then show ?thesis by (simp add: dict_to_list_extra del: dict_to_list.simps)
  next
    case True
    with Cons.prems have "\<exists>r \<in> set rs. \<not> set (map fst r) \<subseteq> set fieldnames" by simp
    from Cons.IH [OF this] obtain w e
      where "writerows L delim fieldnames (map PDict rs) = (w, Some e)" by blast
    then show ?thesis
      by (simp add: dict_to_list_within [OF True] del: dict_to_list.simps split: sum.splits)
  qed
qed

lemma write_file_error:
  "\<exists>e F'. write_file F out (w, Some e0) = (Inl e, F')"
  by (auto simp: write_file_def split: prod.splits option.splits sum.splits)

text \<open>The definitions that evaluate the plain-text libraries and the file system.\<close>

lemmas eval_plain =
  plain_libs_def plain_csv_reader_def plain_csv_writerow_def plain_char_def plain_lines_def
  plain_json_load_def

lemmas eval_write =
  write_file_def ensure_directory_def open_w_def DictWriter_write_def os_path_dirname_def
  os_path_exists_def lookup_def

text \<open>
  Claim C9, as amended. On the empty dataset the CSV \<open>writeData\<close> returns false and
  leaves the file system as it is. On a dataset whose records have no key outside the
  first record's, once the directory is there and the file is open, it writes the header
  of the first record's keys, then one row per record with the values in that key order
  (the empty string for a key the record lacks), and returns true. A later record with a
  key outside the first record's keys is not written misaligned: \<open>writeData\<close> raises.
\<close>

theorem csv_writeData_contract:
  "writeData L F (CSVConverter p (PList []) delim) out = (Inr False, F)
   \<and> (ensure_directory F out = (None, F1) \<and> open_w F1 out = Inr F2
        \<and> csv_writerow L delim (map fst r0) = Inr header
        \<and> list_all2 (\<lambda>r line. set (map fst r) \<subseteq> set (map fst r0)
              \<and> csv_writerow L delim (spec_row (map fst r0) r) = Inr line) (r0 # rest) lines
       \<longrightarrow> writeData L F (CSVConverter p (PList (map PDict (r0 # rest))) delim) out
             = (Inr True, F2(out \<mapsto> File (header @ concat lines))))
   \<and> ((\<exists>r \<in> set rest. \<not> set (map fst r) \<subseteq> set (map fst r0))
       \<longrightarrow> (\<exists>e F'. writeData L F (CSVConverter p (PList (map PDict (r0 # rest))) delim) out
                     = (Inl e, F')))"
proof (intro conjI impI)
  show "writeData L F (CSVConverter p (PList []) delim) out = (Inr False, F)" by simp
next
  assume a: "ensure_directory F out = (None, F1) \<and> open_w F1 out = Inr F2
        \<and> csv_writerow L delim (map fst r0) = Inr header
        \<and> list_all2 (\<lambda>r line. set (map fst r) \<subseteq> set (map fst r0)
              \<and> csv_writerow L delim (spec_row (map fst r0) r) = Inr line) (r0 # rest) lines"
  then have rows: "writerows L delim (map fst r0) (map PDict (r0 # rest)) = (concat lines, None)"
    by (intro writerows_within) simp
  have "DictWriter_write L delim (PList (map PDict (r0 # rest))) = (header @ concat lines, None)"
    using a rows by (simp add: DictWriter_write_def del: writerows.simps)
  then show "writeData L F (CSVConverter p (PList (map PDict (r0 # rest))) delim) out
             = (Inr True, F2(out \<mapsto> File (header @ concat lines)))"
    using a by (simp add: write_file_def)
next
  assume "\<exists>r \<in> set rest. \<not> set (map fst r) \<subseteq> set (map fst r0)"
  then have "\<exists>r \<in> set (r0 # rest). \<not> set (map fst r) \<subseteq> set (map fst r0)" by simp
  from writerows_extra [OF this] obtain w e
    where rows: "writerows L delim (map fst r0) (map PDict (r0 # rest)) = (w, Some e)" by blast
  have "\<exists>w' e'. DictWriter_write L delim (PList (map PDict (r0 # rest))) = (w', Some e')"
    using rows by (simp add: DictWriter_write_def del: writerows.simps split: sum.splits)
  then obtain w' e' where "DictWriter_write L delim (PList (map PDict (r0 # rest))) = (w', Some e')"
    by blast
  then show "\<exists>e F'. writeData L F (CSVConverter p (PList (map PDict (r0 # rest))) delim) out
                     = (Inl e, F')"
    using write_file_error [of F out w' e'] by simp
qed

text \<open>The second record has the key \<open>b\<close>, the header is \<open>a\<close>: \<open>DictWriter\<close> raises
  \<open>ValueError\<close> after the header and the first row.\<close>

theorem csv_writeData_extra_key_counterexample:
  "fst (writeData plain_libs Map.empty
         (CSVConverter (u ''out.csv'')
            (PList [PDict [(PStr (u ''a''), PStr (u ''1''))], PDict [(PStr (u ''b''), PStr (u ''2''))]])
            (u '','')) (u ''out.csv''))
     = Inl (ValueError (u ''dict contains fields not in fieldnames''))
   \<and> snd (writeData plain_libs Map.empty
         (CSVConverter (u ''out.csv'')
            (PList [PDict [(PStr (u ''a''), PStr (u ''1''))], PDict [(PStr (u ''b''), PStr (u ''2''))]])
            (u '','')) (u ''out.csv'')) (u ''out.csv'')
     = Some (File (u ''a'' @ [13, 10] @ u ''1'' @ [13, 10]))"
  by (simp add: eval_write eval_plain u_def)

theorem csv_writeData_contract_witness:
  "writeData plain_libs Map.empty (CSVConverter (u ''out.csv'') (PList []) (u '','')) (u ''out.csv'')
     = (Inr False, Map.empty)
   \<and> writeData plain_libs Map.empty
        (CSVConverter (u ''out.csv'')
           (PList (map PDict [[(PStr (u ''a''), PStr (u ''1'')), (PStr (u ''b''), PStr (u ''2''))],
                              [(PStr (u ''b''), PStr (u ''3''))]]))
           (u '','')) (u ''out.csv'')
     = (Inr True, Map.empty(u ''out.csv'' \<mapsto>
          File (u ''a,b'' @ [13, 10] @ concat [u ''1,2'' @ [13, 10], u '',3'' @ [13, 10]])))
   \<and> (\<exists>e F'. writeData plain_libs Map.empty
        (CSVConverter (u ''out.csv'')
           (PList (map PDict [[(PStr (u ''a''), PStr (u ''1'')), (PStr (u ''b''), PStr (u ''2''))],
                              [(PStr (u ''c''), PStr (u ''3''))]]))
           (u '','')) (u ''out.csv'') = (Inl e, F'))"
proof -
  let ?r0 = "[(PStr (u ''a''), PStr (u ''1'')), (PStr (u ''b''), PStr (u ''2''))]"
  let ?out = "u ''out.csv''"
  let ?F2 = "Map.empty(?out \<mapsto> File [])"
  have h1: "ensure_directory Map.empty ?out = (None, Map.empty)"
    by (simp add: eval_write u_def)
  have h2: "open_w Map.empty ?out = Inr ?F2"
    by (simp add: eval_write u_def)
  have h3: "csv_writerow plain_libs (u '','') (map fst ?r0) = Inr (u ''a,b'' @ [13, 10])"
    by (simp add: eval_plain u_def)
  have h4: "list_all2 (\<lambda>r line. set (map fst r) \<subseteq> set (map fst ?r0)
              \<and> csv_writerow plain_libs (u '','') (spec_row (map fst ?r0) r) = Inr line)
              (?r0 # [[(PStr (u ''b''), PStr (u ''3''))]])
              [u ''1,2'' @ [13, 10], u '',3'' @ [13, 10]]"
    by (simp add: eval_plain spec_row_def u_def)
  have h5: "\<exists>r \<in> set [[(PStr (u ''c''), PStr (u ''3''))]]. \<not> set (map fst r) \<subseteq> set (map fst ?r0)"
    by (simp add: u_def)
  note T1 = csv_writeData_contract [where L = plain_libs and F = Map.empty and p = ?out
      and delim = "u '',''" and out = ?out and ?F1.0 = Map.empty and ?F2.0 = ?F2 and ?r0.0 = ?r0
      and rest = "[[(PStr (u ''b''), PStr (u ''3''))]]" and header = "u ''a,b'' @ [13, 10]"
      and lines = "[u ''1,2'' @ [13, 10], u '',3'' @ [13, 10]]"]
  note T2 = csv_writeData_contract [where L = plain_libs and F = Map.empty and p = ?out
      and delim = "u '',''" and out = ?out and ?r0.0 = ?r0
      and rest = "[[(PStr (u ''c''), PStr (u ''3''))]]"]
  have c1: "writeData plain_libs Map.empty (CSVConverter ?out (PList []) (u '','')) ?out
     = (Inr False, Map.empty)" by (rule T1 [THEN conjunct1])
  have c2: "writeData plain_libs Map.empty
        (CSVConverter ?out (PList (map PDict (?r0 # [[(PStr (u ''b''), PStr (u ''3''))]]))) (u '','')) ?out
     = (Inr True, ?F2(?out \<mapsto>
          File ((u ''a,b'' @ [13, 10]) @ concat [u ''1,2'' @ [13, 10], u '',3'' @ [13, 10]])))"
    by (rule T1 [THEN conjunct2, THEN conjunct1, THEN mp]) (intro conjI h1 h2 h3 h4)
  have c3: "\<exists>e F'. writeData plain_libs Map.empty
        (CSVConverter ?out (PList (map PDict (?r0 # [[(PStr (u ''c''), PStr (u ''3''))]]))) (u '','')) ?out
        = (Inl e, F')"
    by (rule T2 [THEN conjunct2, THEN conjunct2, THEN mp]) (rule h5)
  from c1 c2 c3 show ?thesis by simp
qed

section \<open>convert and the output path\<close>

lemma getConverter_casing_csv:
  "casing_of (u ''.csv'') (snd (os_path_splitext p)) \<Longrightarrow>
   getConverter U F p = CSVConverter_init F p (u '','')"
  by (simp add: getConverter_def casing_of_def str_lower_ascii)

lemma getConverter_casing_json:
  "casing_of (u ''.json'') (snd (os_path_splitext p)) \<Longrightarrow>
   getConverter U F p = JSONConverter_init F p"
proof -
  assume a: "casing_of (u ''.json'') (snd (os_path_splitext p))"
  then have "str_lower U (snd (os_path_splitext p)) = u ''.json''"
    by (simp add: casing_of_def str_lower_ascii)
  moreover have "u ''.json'' \<noteq> u ''.csv''" by (simp add: u_def)
  ultimately show ?thesis by (simp add: getConverter_def)
qed

lemma getConverter_missing:
  assumes "casing_of (u ''.csv'') (snd (os_path_splitext p))
           \<or> casing_of (u ''.json'') (snd (os_path_splitext p))"
    and "\<not> os_path_exists F p"
  shows "getConverter U F p = Inl (FileNotFoundError (u ''Archivo no encontrado: '' @ p))"
  using assms
  by (auto simp: getConverter_casing_csv getConverter_casing_json CSVConverter_init_def
      JSONConverter_init_def DataConverter_init_def)

lemmas eval_convert =
  convert_def getConverter_def CSVConverter_init_def JSONConverter_init_def
  DataConverter_init_def except_return_False_def csv_validate_try_def json_validate_try_def
  open_r_def DictReader_rows_def DictReader_row_def

text \<open>
  Claim C3, where the code departs from it. With an input that exists, validates and is
  read, and an output path with a supported extension that does not exist yet, \<open>convert\<close>
  raises the not-found error of the constructor of the output converter, before
  \<open>writeData\<close> could create the directories and the file.
\<close>

theorem convert_missing_output_raises:
  assumes "os_path_exists F inp"
    and "getConverter U F inp = Inr ic"
    and "validateFormat L F ic = Inr True"
    and "readData L F ic = Inr d"
    and "iter_records d = Inr records"
    and "casing_of (u ''.csv'') (snd (os_path_splitext out))
         \<or> casing_of (u ''.json'') (snd (os_path_splitext out))"
    and "\<not> os_path_exists F out"
  shows "convert U L F inp out
         = (Inl (FileNotFoundError (u ''Archivo no encontrado: '' @ out)), F)"
  using assms(1-5) getConverter_missing [OF assms(6,7), of U]
  by (simp add: convert_def)

theorem convert_missing_output_raises_witness:
  "os_path_exists (Map.empty(u ''in.json'' \<mapsto> File (u ''[]''))) (u ''in.json'')
   \<and> \<not> os_path_exists (Map.empty(u ''in.json'' \<mapsto> File (u ''[]''))) (u ''salida/out.csv'')
   \<and> convert ucd_excerpt plain_libs (Map.empty(u ''in.json'' \<mapsto> File (u ''[]'')))
         (u ''in.json'') (u ''salida/out.csv'')
       = (Inl (FileNotFoundError (u ''Archivo no encontrado: salida/out.csv'')),
          Map.empty(u ''in.json'' \<mapsto> File (u ''[]'')))"
proof -
  let ?F = "Map.empty(u ''in.json'' \<mapsto> File (u ''[]''))"
  let ?ic = "JSONConverter (u ''in.json'') (PList [])"
  have h1: "os_path_exists ?F (u ''in.json'')" by (simp add: eval_paths)
  have h2: "getConverter ucd_excerpt ?F (u ''in.json'') = Inr ?ic"
    by (simp add: getConverter_def JSONConverter_init_def DataConverter_init_def eval_paths
        str_lower_def lower_cp_def)
  have h3: "validateFormat plain_libs ?F ?ic = Inr True"
    by (simp add: except_return_False_def json_validate_try_def open_r_def lookup_def
        eval_plain u_def)
  have h4: "readData plain_libs ?F ?ic = Inr (PList [])"
    by (simp add: open_r_def lookup_def eval_plain u_def)
  have h5: "iter_records (PList []) = Inr []" by simp
  have h6: "casing_of (u ''.csv'') (snd (os_path_splitext (u ''salida/out.csv'')))
         \<or> casing_of (u ''.json'') (snd (os_path_splitext (u ''salida/out.csv'')))"
    by (simp add: eval_paths)
  have h7: "\<not> os_path_exists ?F (u ''salida/out.csv'')" by (simp add: eval_paths)
  from convert_missing_output_raises [OF h1 h2 h3 h4 h5 h6 h7] h1 h7 show ?thesis
    by (simp add: u_def)
qed

text \<open>
  Claim C2, where the code departs from it. The CSV file with the header \<open>Nombre,Edad\<close>
  and the row \<open>Ana,30\<close>, converted to the path \<open>out.json\<close> that does not exist yet:
  \<open>convert\<close> raises the not-found error for the output path and writes nothing.
\<close>

theorem convert_example_missing_output:
  "convert ucd_excerpt plain_libs
     (Map.empty(u ''in.csv'' \<mapsto> File (u ''Nombre,Edad'' @ [10] @ u ''Ana,30'' @ [10])))
     (u ''in.csv'') (u ''out.json'')
   = (Inl (FileNotFoundError (u ''Archivo no encontrado: out.json'')),
      Map.empty(u ''in.csv'' \<mapsto> File (u ''Nombre,Edad'' @ [10] @ u ''Ana,30'' @ [10])))"
  by (simp add: eval_convert eval_paths eval_plain eval_normalizer)

text \<open>With an output file that is already there, the conversion does what the claim
  says: for any library that reads these two rows, and on the plain-text instance down
  to the bytes of the file.\<close>

lemma convert_csv_example:
  assumes "lookup F inp = Some (File content)"
    and "casing_of (u ''.csv'') (snd (os_path_splitext inp))"
    and "csv_reader L (u '','') content = ([[u ''Nombre'', u ''Edad''], [u ''Ana'', u ''30'']], None)"
    and "casing_of (u ''.json'') (snd (os_path_splitext out))"
    and "os_path_exists F out"
  shows "convert U L F inp out
         = write_file F out
             (json_dump L (PList [PDict [(PStr (u ''nombre''), PStr (u ''ana'')),
                                         (PStr (u ''edad''), PStr (u ''30''))]]))"
proof -
  have ex: "os_path_exists F inp" using assms(1) by (simp add: os_path_exists_def)
  have ic: "getConverter U F inp = Inr (CSVConverter inp (PList []) (u '',''))"
    using ex by (simp add: getConverter_casing_csv [OF assms(2)] CSVConverter_init_def
        DataConverter_init_def)
  have oc: "getConverter U F out = Inr (JSONConverter out (PList []))"
    using assms(5) by (simp add: getConverter_casing_json [OF assms(4)] JSONConverter_init_def
        DataConverter_init_def)
  have v: "validateFormat L F (CSVConverter inp (PList []) (u '','')) = Inr True"
    using assms(1,3) by (simp add: except_return_False_def csv_validate_try_def open_r_def)
  have r: "readData L F (CSVConverter inp (PList []) (u '','')) =
      Inr (PList [PDict [(PStr (u ''Nombre''), PStr (u ''Ana'')), (PStr (u ''Edad''), PStr (u ''30''))]])"
    using assms(1,3) by (simp add: open_r_def DictReader_rows_def DictReader_row_def u_def)
  have c: "cleanData U [[(PStr (u ''Nombre''), PStr (u ''Ana'')), (PStr (u ''Edad''), PStr (u ''30''))]]
      = [[(PStr (u ''nombre''), PStr (u ''ana'')), (PStr (u ''edad''), PStr (u ''30''))]]"
    by (simp add: cleanData_def cleanItem_def cleanField_def cleanValue_def is_str_def
        str_strip_def is_space_def u_def removeAccents_str_def NFD_def canonical_order_def
        decomp_def ccc_def is_Mn_def re_sub_key_def in_ranges_def key_class_ranges_def
        str_lower_def lower_cp_def ascii_lower_def)
  show ?thesis using ex ic oc v r c by (simp add: convert_def)
qed

lemma convert_example_existing_output:
  "convert ucd_excerpt plain_libs
     (Map.empty(u ''in.csv'' \<mapsto> File (u ''Nombre,Edad'' @ [10] @ u ''Ana,30'' @ [10]),
                u ''out.json'' \<mapsto> File []))
     (u ''in.csv'') (u ''out.json'')
   = (Inr True,
      Map.empty(u ''in.csv'' \<mapsto> File (u ''Nombre,Edad'' @ [10] @ u ''Ana,30'' @ [10]),
                u ''out.json'' \<mapsto> File
                  (u ''['' @ [10] @ u ''    {'' @ [10]
                   @ u ''        '' @ [34] @ u ''nombre'' @ [34] @ u '': '' @ [34] @ u ''ana'' @ [34, 44, 10]
                   @ u ''        '' @ [34] @ u ''edad'' @ [34] @ u '': '' @ [34] @ u ''30'' @ [34, 10]
                   @ u ''    }'' @ [10] @ u '']'')))"
  by (simp add: eval_convert eval_paths eval_plain eval_normalizer eval_write)

end
